theory Spec2Isabelle
  imports Complex_Main
begin

section \<open>Chatterous (main.py): data model\<close>

text \<open>
  Python integers are unbounded and are modelled as \<open>int\<close>; user, channel, guild, role
  and message ids are Python ints. A \<open>string\<close> is a list of code points below 256
  (\<open>CHR 0xA0\<close> is U+00A0): on these \<open>str.strip\<close>, \<open>str.lower\<close> and \<open>int()\<close> have
  the behaviour written out below, and code points from 256 on are outside the type.
  The SQLite store is assumed available: a statement on the store does not raise by
  itself. Every other \<open>raise\<close> of the source (indexing \<open>None\<close>, \<open>int()\<close> on a
  malformed string, a value that does not fit an SQLite integer, a failed Discord send)
  is a branch of the model. \<open>on_message\<close> composes its steps as they run when no other
  handler is scheduled in between; the trivia step is given in its two parts, before
  and after the \<open>await\<close> of line 485, so that two handlers can also be interleaved
  there.
\<close>

datatype error = TypeError | ValueError | IndexError | AttributeError | OverflowError | KeyError

text \<open>A row of the table \<open>users\<close> (main.py, lines 136-143); the key \<open>user_id\<close> is the
  argument of the map.\<close>

record user_row =
  coins :: int
  xp :: int
  level :: int
  last_daily :: int

type_synonym users = "int \<rightharpoonup> user_row"

text \<open>\<open>UPDATE users SET ... WHERE user_id = ?\<close>: a missing row is left missing.\<close>

definition sql_update :: "users \<Rightarrow> int \<Rightarrow> (user_row \<Rightarrow> user_row) \<Rightarrow> users" where
  "sql_update db uid f = (case db uid of None \<Rightarrow> db | Some r \<Rightarrow> db(uid \<mapsto> f r))"

text \<open>\<open>ensure_user\<close> (lines 192-197): \<open>INSERT OR IGNORE\<close> of the all-zero row.\<close>

definition ensure_user :: "users \<Rightarrow> int \<Rightarrow> users" where
  "ensure_user db uid =
     (case db uid of
        None \<Rightarrow> db(uid \<mapsto> \<lparr>coins = 0, xp = 0, level = 0, last_daily = 0\<rparr>)
      | Some r \<Rightarrow> db)"

text \<open>\<open>get_user\<close> (lines 217-223): the row, or \<open>None\<close>.\<close>

definition get_user :: "users \<Rightarrow> int \<Rightarrow> user_row option" where
  "get_user db uid = db uid"

subsection \<open>XP and levels\<close>

text \<open>
  The integer square root, by the recursion
  \<open>isqrt (n + 1) = (if (isqrt n + 1)\<^sup>2 \<le> n + 1 then isqrt n + 1 else isqrt n)\<close>.
\<close>

primrec isqrt :: "nat \<Rightarrow> nat" where
  "isqrt 0 = 0"
| "isqrt (Suc n) = (let r = isqrt n in if Suc r * Suc r \<le> Suc n then Suc r else r)"

text \<open>
  Number of binary digits of a natural number.
\<close>

fun bit_len :: "nat \<Rightarrow> nat" where
  "bit_len n = (if n = 0 then 0 else Suc (bit_len (n div 2)))"

declare bit_len.simps [simp del]

text \<open>
  The conversion of a non-negative Python int to a double, which CPython rounds
  correctly (to nearest, ties to even): the value of the double, an integer again.
  Below \<open>2\<^sup>5\<^sup>3\<close> the conversion is exact; above, 53 binary digits are kept.
\<close>

definition to_double :: "int \<Rightarrow> int" where
  "to_double x =
     (if x < 2 ^ 53 then x
      else
        (let sh = bit_len (nat x) - 53;
             q = x div 2 ^ sh;
             r = x mod 2 ^ sh
         in (if 2 * r > 2 ^ sh \<or> (2 * r = 2 ^ sh \<and> odd q) then q + 1 else q) * 2 ^ sh))"

text \<open>
  \<open>int(xp ** 0.5)\<close> (line 208), a computation in doubles. For a negative \<open>xp\<close> Python's
  \<open>**\<close> gives a complex number and \<open>int\<close> raises \<open>TypeError\<close>; an \<open>xp\<close> whose double
  would be \<open>2\<^sup>1\<^sup>0\<^sup>2\<^sup>4\<close> or more raises \<open>OverflowError\<close>. Otherwise \<open>xp\<close> is converted
  to the double \<open>y\<close> and the C library's \<open>pow(y, 0.5)\<close>, which is less than one unit in
  the last place off the square root, is truncated:
  \<^item> when \<open>y\<close> is a perfect square its root is a double, and \<open>pow\<close> returns it;
  \<^item> when \<open>y < 2\<^sup>5\<^sup>2\<close> the root is below \<open>2\<^sup>2\<^sup>6\<close>, the doubles around it are \<open>2\<^sup>-\<^sup>2\<^sup>7\<close>
    or less apart, and the root of a non-square lies more than that below the next
    integer: the truncation is the integer square root;
  \<^item> for any other \<open>y\<close> the last bit of \<open>pow\<close> decides, and the result is what the
    platform computes: the parameter \<open>pow_trunc\<close>.
\<close>

definition int_sqrt :: "(int \<Rightarrow> int) \<Rightarrow> int \<Rightarrow> error + int" where
  "int_sqrt pow_trunc x =
     (if x < 0 then Inl TypeError
      else if 2 ^ 1024 \<le> to_double x then Inl OverflowError
      else
        (let y = to_double x;
             r = int (isqrt (nat y))
         in if y < 2 ^ 52 \<or> r * r = y then Inr r else Inr (pow_trunc y)))"

text \<open>
  \<open>add_xp\<close> (lines 199-215). The \<open>xp\<close> update is committed before the level is
  computed, so the returned store carries it also when the computation raises.
\<close>

definition add_xp ::
  "(int \<Rightarrow> int) \<Rightarrow> users \<Rightarrow> int \<Rightarrow> int \<Rightarrow> users \<times> (error + int option)" where
  "add_xp pow_trunc db uid amount =
     (let db1 = ensure_user db uid;
          db2 = sql_update db1 uid (\<lambda>r. r\<lparr>xp := xp r + amount\<rparr>)
      in case db2 uid of
           None \<Rightarrow> (db2, Inl TypeError)
         | Some row \<Rightarrow>
             (case int_sqrt pow_trunc (xp row) of
                Inl e \<Rightarrow> (db2, Inl e)
              | Inr new_level \<Rightarrow>
                  if new_level > level row
                  then (sql_update db2 uid (\<lambda>r. r\<lparr>level := new_level\<rparr>), Inr (Some new_level))
                  else (db2, Inr None)))"


text \<open>
  The invariant of the table \<open>users\<close>: rows are created with \<open>xp = 0\<close> and \<open>level = 0\<close>
  and \<open>add_xp\<close> is the only writer of both columns. It ties the level to the xp as
  long as the xp is below \<open>2\<^sup>5\<^sup>2\<close>.
\<close>

definition level_ok :: "user_row \<Rightarrow> bool" where
  "level_ok r = (0 \<le> xp r \<and> (xp r < 2 ^ 52 \<longrightarrow> level r = int (isqrt (nat (xp r)))))"

definition users_inv :: "users \<Rightarrow> bool" where
  "users_inv db = (\<forall>uid r. db uid = Some r \<longrightarrow> level_ok r)"


definition xp_of :: "users \<Rightarrow> int \<Rightarrow> int" where
  "xp_of db uid = (case db uid of None \<Rightarrow> 0 | Some r \<Rightarrow> xp r)"

definition coins_of :: "users \<Rightarrow> int \<Rightarrow> int" where
  "coins_of db uid = (case db uid of None \<Rightarrow> 0 | Some r \<Rightarrow> coins r)"

definition last_daily_of :: "users \<Rightarrow> int \<Rightarrow> int" where
  "last_daily_of db uid = (case db uid of None \<Rightarrow> 0 | Some r \<Rightarrow> last_daily r)"

subsection \<open>Randomness\<close>

text \<open>
  \<open>random.randint(a, b)\<close> returns an integer \<open>N\<close> with \<open>a \<le> N \<le> b\<close>. The generator's
  state is not part of the program; a call takes the entropy it consumes as a
  natural number.
\<close>

definition randint :: "int \<Rightarrow> int \<Rightarrow> nat \<Rightarrow> int" where
  "randint a b seed = a + int seed mod (b - a + 1)"

subsection \<open>Economy\<close>

text \<open>What a command sends back with \<open>ctx.send\<close>.\<close>

datatype reply =
    EnterAmount
  | NotEnoughCoins
  | Gave int int int
  | DailyAlreadyClaimed
  | DailyClaimed int int
  | InvalidTimeFormat
  | ReminderSet int

text \<open>\<open>change_coins\<close> (lines 225-234).\<close>

definition change_coins :: "users \<Rightarrow> int \<Rightarrow> int \<Rightarrow> users \<times> (error + int)" where
  "change_coins db uid delta =
     (let db1 = ensure_user db uid;
          db2 = sql_update db1 uid (\<lambda>r. r\<lparr>coins := coins r + delta\<rparr>)
      in case db2 uid of
           None \<Rightarrow> (db2, Inl TypeError)
         | Some row \<Rightarrow> (db2, Inr (coins row)))"

text \<open>
  The sender-balance check of \<open>cmd_give\<close> (lines 657-658): \<open>row["coins"] < amount\<close>
  on the result of \<open>get_user\<close>; indexing \<open>None\<close> raises \<open>TypeError\<close>.
\<close>

definition balance_check :: "users \<Rightarrow> int \<Rightarrow> int \<Rightarrow> error + bool" where
  "balance_check db author amount =
     (case get_user db author of
        None \<Rightarrow> Inl TypeError
      | Some row \<Rightarrow> Inr (coins row < amount))"

text \<open>
  \<open>cmd_give\<close> (lines 652-663); \<open>author\<close> is \<open>ctx.author.id\<close>, \<open>member\<close> is
  \<open>member.id\<close>. An exception leaves the handler with the store as it is then.
\<close>

definition cmd_give :: "users \<Rightarrow> int \<Rightarrow> int \<Rightarrow> int \<Rightarrow> users \<times> (error + reply)" where
  "cmd_give db author member amount =
     (if amount \<le> 0 then (db, Inr EnterAmount)
      else case balance_check db author amount of
             Inl e \<Rightarrow> (db, Inl e)
           | Inr True \<Rightarrow> (db, Inr NotEnoughCoins)
           | Inr False \<Rightarrow>
               (case change_coins db author (- amount) of
                  (db1, Inl e) \<Rightarrow> (db1, Inl e)
                | (db1, Inr _) \<Rightarrow>
                    (case change_coins db1 member amount of
                       (db2, Inl e) \<Rightarrow> (db2, Inl e)
                     | (db2, Inr _) \<Rightarrow> (db2, Inr (Gave author member amount)))))"

text \<open>
  \<open>cmd_daily\<close> (lines 665-679); \<open>now\<close> is \<open>int(time.time())\<close> and \<open>seed\<close> the entropy
  of \<open>random.randint(50,150)\<close>. \<open>row["last_daily"] or 0\<close> is the column unless it is
  falsy, and then 0.
\<close>

definition cmd_daily :: "users \<Rightarrow> int \<Rightarrow> int \<Rightarrow> nat \<Rightarrow> users \<times> (error + reply)" where
  "cmd_daily db author now seed =
     (let db1 = ensure_user db author in
      case get_user db1 author of
        None \<Rightarrow> (db1, Inl TypeError)
      | Some row \<Rightarrow>
          (let last = (if last_daily row = 0 then 0 else last_daily row) in
           if now - last < 24 * 3600 then (db1, Inr DailyAlreadyClaimed)
           else
             (let reward = randint 50 150 seed in
              case change_coins db1 author reward of
                (db2, Inl e) \<Rightarrow> (db2, Inl e)
              | (db2, Inr _) \<Rightarrow>
                  (sql_update db2 author (\<lambda>r. r\<lparr>last_daily := now\<rparr>),
                   Inr (DailyClaimed author reward)))))"

subsection \<open>Strings\<close>

text \<open>
  The whitespace of \<open>str.strip\<close> (the code points for which \<open>str.isspace\<close> holds):
  tab, line feed, vertical tab, form feed, carriage return, the separators 0x1C to
  0x1F, space, next line (0x85) and no-break space (0xA0).
\<close>

definition is_space :: "char \<Rightarrow> bool" where
  "is_space c =
     (c \<in> set [CHR 0x09, CHR 0x0A, CHR 0x0B, CHR 0x0C, CHR 0x0D,
                CHR 0x1C, CHR 0x1D, CHR 0x1E, CHR 0x1F, CHR 0x20, CHR 0x85, CHR 0xA0])"

definition strip :: "string \<Rightarrow> string" where
  "strip s = rev (dropWhile is_space (rev (dropWhile is_space s)))"

text \<open>
  \<open>str.lower\<close>: the capital letters are A to Z and 0xC0 to 0xDE without the
  multiplication sign 0xD7; the small letter is 0x20 further on.
\<close>

definition upper_letters :: "char list" where
  "upper_letters =
     ''ABCDEFGHIJKLMNOPQRSTUVWXYZ'' @
     [CHR 0xC0, CHR 0xC1, CHR 0xC2, CHR 0xC3, CHR 0xC4, CHR 0xC5, CHR 0xC6, CHR 0xC7,
      CHR 0xC8, CHR 0xC9, CHR 0xCA, CHR 0xCB, CHR 0xCC, CHR 0xCD, CHR 0xCE, CHR 0xCF,
      CHR 0xD0, CHR 0xD1, CHR 0xD2, CHR 0xD3, CHR 0xD4, CHR 0xD5, CHR 0xD6, CHR 0xD8,
      CHR 0xD9, CHR 0xDA, CHR 0xDB, CHR 0xDC, CHR 0xDD, CHR 0xDE]"

definition lower_letters :: "char list" where
  "lower_letters =
     ''abcdefghijklmnopqrstuvwxyz'' @
     [CHR 0xE0, CHR 0xE1, CHR 0xE2, CHR 0xE3, CHR 0xE4, CHR 0xE5, CHR 0xE6, CHR 0xE7,
      CHR 0xE8, CHR 0xE9, CHR 0xEA, CHR 0xEB, CHR 0xEC, CHR 0xED, CHR 0xEE, CHR 0xEF,
      CHR 0xF0, CHR 0xF1, CHR 0xF2, CHR 0xF3, CHR 0xF4, CHR 0xF5, CHR 0xF6, CHR 0xF8,
      CHR 0xF9, CHR 0xFA, CHR 0xFB, CHR 0xFC, CHR 0xFD, CHR 0xFE]"

definition lower_char :: "char \<Rightarrow> char" where
  "lower_char c =
     (case map_of (zip upper_letters lower_letters) c of
        None \<Rightarrow> c
      | Some l \<Rightarrow> l)"

definition lower :: "string \<Rightarrow> string" where
  "lower s = map lower_char s"

text \<open>\<open>kw in s\<close> on strings: \<open>kw\<close> occurs in \<open>s\<close> as a contiguous substring.\<close>

fun contains :: "string \<Rightarrow> string \<Rightarrow> bool" where
  "contains [] kw = (kw = [])"
| "contains (c # cs) kw = (take (length kw) (c # cs) = kw \<or> contains cs kw)"

definition digit_val :: "char \<Rightarrow> int option" where
  "digit_val = map_of (zip ''0123456789'' [0, 1, 2, 3, 4, 5, 6, 7, 8, 9])"

text \<open>
  \<open>int(s)\<close> on a string, base 10, as CPython parses it: whitespace is skipped at both
  ends, one sign \<open>+\<close> or \<open>-\<close> may follow, then decimal digits, where a single
  underscore may stand between two digits; anything else raises \<open>ValueError\<close>.
  The whitespace of \<open>int()\<close> is not that of \<open>str.strip\<close>: the parser skips tab, line
  feed, vertical tab, form feed, carriage return and space, and before it runs the
  spaces from 0x7F on (0x85 and 0xA0) are turned into a space; 0x1C to 0x1F are not
  skipped. The only decimal digits below 256 are 0 to 9. (CPython refuses more than
  4300 digits; a Discord message has at most 4000 characters.)
  \<open>parse_digits\<close> reads what follows the first digit.
\<close>

definition is_int_space :: "char \<Rightarrow> bool" where
  "is_int_space c =
     (c \<in> set [CHR 0x09, CHR 0x0A, CHR 0x0B, CHR 0x0C, CHR 0x0D, CHR 0x20,
                CHR 0x85, CHR 0xA0])"

definition int_strip :: "string \<Rightarrow> string" where
  "int_strip s = rev (dropWhile is_int_space (rev (dropWhile is_int_space s)))"

fun parse_digits :: "string \<Rightarrow> int \<Rightarrow> error + int" where
  "parse_digits [] acc = Inr acc"
| "parse_digits (c # cs) acc =
     (if c = CHR ''_''
      then (case cs of
              [] \<Rightarrow> Inl ValueError
            | d # ds \<Rightarrow>
                (case digit_val d of
                   None \<Rightarrow> Inl ValueError
                 | Some v \<Rightarrow> parse_digits ds (10 * acc + v)))
      else (case digit_val c of
              None \<Rightarrow> Inl ValueError
            | Some v \<Rightarrow> parse_digits cs (10 * acc + v)))"

definition parse_unsigned :: "string \<Rightarrow> error + int" where
  "parse_unsigned s =
     (case s of
        [] \<Rightarrow> Inl ValueError
      | c # cs \<Rightarrow>
          (case digit_val c of
             None \<Rightarrow> Inl ValueError
           | Some v \<Rightarrow> parse_digits cs v))"

definition py_int :: "string \<Rightarrow> error + int" where
  "py_int s =
     (case int_strip s of
        [] \<Rightarrow> Inl ValueError
      | c # cs \<Rightarrow>
          if c = CHR ''-'' then map_sum id uminus (parse_unsigned cs)
          else if c = CHR ''+'' then parse_unsigned cs
          else parse_unsigned (c # cs))"

subsection \<open>Reminders\<close>

text \<open>A row of the table \<open>reminders\<close> (lines 156-165).\<close>

record reminder =
  rid :: int
  r_user :: int
  r_guild :: "int option"
  r_channel :: int
  remind_at :: int
  r_content :: string
  created_at :: int

text \<open>
  The table with the counter of its \<open>AUTOINCREMENT\<close> key: \<open>last_rid\<close> is the largest
  id given out so far, and a new row takes the next one.
\<close>

record reminders_tbl =
  r_rows :: "reminder list"
  last_rid :: int

text \<open>
  The values the \<open>sqlite3\<close> module binds as an SQLite integer: 64 bits, signed. Binding
  an integer outside raises \<open>OverflowError\<close>.
\<close>

definition int64 :: "int \<Rightarrow> bool" where
  "int64 x = (- (2 ^ 63) \<le> x \<and> x < 2 ^ 63)"

text \<open>\<open>schedule_reminder\<close> (lines 244-250); \<open>clock\<close> is its own reading
  \<open>int(time.time())\<close>, taken at the insertion. The \<open>INSERT\<close> binds five integers.\<close>

definition schedule_reminder ::
  "reminders_tbl \<Rightarrow> int \<Rightarrow> int option \<Rightarrow> int \<Rightarrow> int \<Rightarrow> string \<Rightarrow> int
     \<Rightarrow> error + reminders_tbl" where
  "schedule_reminder tbl user_id guild_id channel_id remind content clock =
     (if int64 user_id \<and> (case guild_id of None \<Rightarrow> True | Some g \<Rightarrow> int64 g) \<and>
         int64 channel_id \<and> int64 remind \<and> int64 clock
      then Inr (tbl\<lparr>r_rows := r_rows tbl @
                  [\<lparr>rid = last_rid tbl + 1, r_user = user_id, r_guild = guild_id,
                    r_channel = channel_id, remind_at = remind, r_content = content,
                    created_at = clock\<rparr>],
               last_rid := last_rid tbl + 1\<rparr>)
      else Inl OverflowError)"

definition unit_mult :: "char \<Rightarrow> int option" where
  "unit_mult = map_of [(CHR ''s'', 1), (CHR ''m'', 60), (CHR ''h'', 3600), (CHR ''d'', 86400)]"

text \<open>
  The \<open>try\<close> block of \<open>cmd_remindme\<close> (lines 710-716): \<open>when[-1]\<close> raises
  \<open>IndexError\<close> on the empty string, \<open>int(when[:-1])\<close> raises \<open>ValueError\<close>, and
  \<open>if not mult\<close> raises when the unit is not a key (or its multiplier is 0).
\<close>

definition parse_when :: "string \<Rightarrow> error + int" where
  "parse_when when =
     (if when = [] then Inl IndexError
      else
        (let unit = last when in
         case py_int (butlast when) of
           Inl e \<Rightarrow> Inl e
         | Inr num \<Rightarrow>
             (case unit_mult unit of
                None \<Rightarrow> Inl ValueError
              | Some mult \<Rightarrow> if mult = 0 then Inl ValueError else Inr (num * mult))))"

text \<open>
  \<open>cmd_remindme\<close> (lines 707-722): \<open>now\<close> is the reading \<open>int(time.time())\<close> of
  line 720 and \<open>clock\<close> the later one inside \<open>schedule_reminder\<close>. Lines 720-722 are
  outside the \<open>try\<close>: an exception of \<open>schedule_reminder\<close> leaves the handler, with no
  row inserted and no reply sent.
\<close>

definition cmd_remindme ::
  "reminders_tbl \<Rightarrow> int \<Rightarrow> int option \<Rightarrow> int \<Rightarrow> string \<Rightarrow> string \<Rightarrow> int \<Rightarrow> int
     \<Rightarrow> reminders_tbl \<times> (error + reply)" where
  "cmd_remindme tbl author guild channel when content now clock =
     (case parse_when when of
        Inl e \<Rightarrow> (tbl, Inr InvalidTimeFormat)
      | Inr seconds \<Rightarrow>
          (let remind = now + seconds in
           case schedule_reminder tbl author guild channel remind content clock of
             Inl e \<Rightarrow> (tbl, Inl e)
           | Inr tbl' \<Rightarrow> (tbl', Inr (ReminderSet remind))))"

text \<open>
  The format in the specification's words: an integer (an optional sign and decimal
  digits) immediately followed by one unit character from s, m, h, d, for seconds,
  minutes, hours and days.
\<close>

definition is_digit :: "char \<Rightarrow> bool" where
  "is_digit c = (c \<in> set ''0123456789'')"

definition decimal_value :: "string \<Rightarrow> int" where
  "decimal_value ds =
     foldl (\<lambda>a c. 10 * a + (case digit_val c of None \<Rightarrow> 0 | Some v \<Rightarrow> v)) 0 ds"

definition spec_integer :: "string \<Rightarrow> int option" where
  "spec_integer s =
     (case s of
        [] \<Rightarrow> None
      | c # cs \<Rightarrow>
          if c = CHR ''-'' \<and> cs \<noteq> [] \<and> list_all is_digit cs then Some (- decimal_value cs)
          else if c = CHR ''+'' \<and> cs \<noteq> [] \<and> list_all is_digit cs then Some (decimal_value cs)
          else if list_all is_digit (c # cs) then Some (decimal_value (c # cs))
          else None)"

definition spec_unit_seconds :: "char \<Rightarrow> int option" where
  "spec_unit_seconds u =
     (if u = CHR ''s'' then Some 1
      else if u = CHR ''m'' then Some 60
      else if u = CHR ''h'' then Some (60 * 60)
      else if u = CHR ''d'' then Some (24 * 60 * 60)
      else None)"

definition spec_offset :: "string \<Rightarrow> int option" where
  "spec_offset when =
     (if when = [] then None
      else case (spec_integer (butlast when), spec_unit_seconds (last when)) of
             (Some amount, Some unit) \<Rightarrow> Some (amount * unit)
           | _ \<Rightarrow> None)"

text \<open>
  One cycle of \<open>reminders_worker\<close> (lines 687-704). \<open>chan_ok\<close> tells whether
  \<open>bot.get_channel\<close> resolves a channel id and \<open>send_ok\<close> whether \<open>ch.send\<close>
  returns for a row; when it raises, control leaves the inner \<open>try\<close> before the
  \<open>DELETE\<close>.
\<close>

record cycle_env =
  chan_ok :: "int \<Rightarrow> bool"
  send_ok :: "reminder \<Rightarrow> bool"

datatype delivery = Delivered reminder | SendFailed reminder

definition delete_reminder :: "reminder list \<Rightarrow> int \<Rightarrow> reminder list" where
  "delete_reminder tbl i = filter (\<lambda>x. rid x \<noteq> i) tbl"

fun deliver :: "cycle_env \<Rightarrow> reminder list \<Rightarrow> reminder list \<Rightarrow> reminder list \<times> delivery list" where
  "deliver env [] tbl = (tbl, [])"
| "deliver env (r # rs) tbl =
     (if chan_ok env (r_channel r)
      then (if send_ok env r
            then (case deliver env rs (delete_reminder tbl (rid r)) of
                    (tbl', ds) \<Rightarrow> (tbl', Delivered r # ds))
            else (case deliver env rs tbl of
                    (tbl', ds) \<Rightarrow> (tbl', SendFailed r # ds)))
      else deliver env rs (delete_reminder tbl (rid r)))"

definition reminders_cycle :: "cycle_env \<Rightarrow> int \<Rightarrow> reminder list \<Rightarrow> reminder list \<times> delivery list" where
  "reminders_cycle env now tbl = deliver env (filter (\<lambda>r. remind_at r \<le> now) tbl) tbl"

text \<open>
  The loop of \<open>reminders_worker\<close> over the cycles it runs until the bot is closed: one
  clock reading and one environment per cycle. It returns the table and the deliveries
  of all cycles.
\<close>

fun reminders_worker ::
  "(int \<times> cycle_env) list \<Rightarrow> reminder list \<Rightarrow> reminder list \<times> delivery list" where
  "reminders_worker [] tbl = (tbl, [])"
| "reminders_worker ((now, env) # cycles) tbl =
     (case reminders_cycle env now tbl of
        (tbl1, ds1) \<Rightarrow>
          (case reminders_worker cycles tbl1 of
             (tbl2, ds2) \<Rightarrow> (tbl2, ds1 @ ds2)))"

subsection \<open>Messages: XP, trivia, auto-react, auto-reply\<close>

text \<open>The fixed pool \<open>TRIVIA_QUESTIONS\<close> (lines 328-333), question and answer.\<close>

definition TRIVIA_QUESTIONS :: "(string \<times> string) list" where
  "TRIVIA_QUESTIONS =
     [(''What is the capital of France?'', ''paris''),
      (''Which planet is known as the Red Planet?'', ''mars''),
      (''Who wrote Hamlet?'', ''william shakespeare''),
      (''What is 9 * 9?'', ''81'')]"

text \<open>
  The module's state: the table \<open>users\<close> and the dictionaries \<open>trivia_scores\<close>,
  \<open>active_trivia\<close>, \<open>_last_react_time\<close> and \<open>_last_reply_time\<close>. \<open>time.time()\<close> is a
  double; the timestamps are \<open>real\<close>, and the subtractions and comparisons the code
  makes on them are exact on doubles of this size.
\<close>

record state =
  users_tbl :: users
  trivia_scores :: "int \<rightharpoonup> int"
  active_trivia :: "int \<rightharpoonup> string \<times> int"
  last_react_time :: "int \<times> int \<rightharpoonup> real"
  last_reply_time :: "int \<times> int \<rightharpoonup> real"

text \<open>The configuration read from the environment (lines 415-425).\<close>

record config =
  AUTO_REACT_CHANNEL_IDS :: "int list"
  AUTO_REACT_KEYWORDS :: "string list"
  AUTO_REACT_COOLDOWN :: int
  AUTO_REPLY_CHANNEL_IDS :: "int list"
  AUTO_REPLY_KEYWORDS :: "string list"
  AUTO_REPLY_CHANCE :: int
  AUTO_REPLY_COOLDOWN :: int

record message =
  m_author :: int
  m_author_bot :: bool
  m_channel :: int
  m_content :: string

text \<open>
  What the world decides while one message is handled: the entropy of the two
  \<open>random.randint\<close> calls, whether the level-up and the trivia announcement are sent
  or raise, the reading of \<open>time.time()\<close> at line 492, and what the platform's
  \<open>pow\<close> yields where \<open>int_sqrt\<close> leaves it open.
\<close>

record msg_env =
  xp_seed :: nat
  levelup_send_ok :: bool
  trivia_send_ok :: bool
  now_time :: real
  reply_seed :: nat
  pow_trunc :: "int \<Rightarrow> int"

datatype event =
    LevelUpSent int int
  | XpErrorLogged
  | TriviaCorrectSent int int
  | TriviaFailedLogged
  | ReactionsTried int int
  | AutoReplyTried int int
  | CommandsProcessed

text \<open>\<open>trivia_cmd\<close> (lines 343-347); \<open>seed\<close> is the entropy of \<open>random.choice\<close>.\<close>

definition trivia_cmd :: "nat \<Rightarrow> int \<Rightarrow> int \<Rightarrow> state \<Rightarrow> state" where
  "trivia_cmd seed channel author st =
     st\<lparr>active_trivia := (active_trivia st)
           (channel \<mapsto> (snd (TRIVIA_QUESTIONS ! (seed mod length TRIVIA_QUESTIONS)), author))\<rparr>"

text \<open>Lines 467-475: the XP award; \<open>if lvl_up\<close> is true for a level other than 0.\<close>

definition xp_step :: "msg_env \<Rightarrow> message \<Rightarrow> state \<Rightarrow> state \<times> event list" where
  "xp_step env m st =
     (case add_xp (pow_trunc env) (users_tbl st) (m_author m) (randint 1 3 (xp_seed env)) of
        (db, Inl e) \<Rightarrow> (st\<lparr>users_tbl := db\<rparr>, [XpErrorLogged])
      | (db, Inr None) \<Rightarrow> (st\<lparr>users_tbl := db\<rparr>, [])
      | (db, Inr (Some lvl)) \<Rightarrow>
          (st\<lparr>users_tbl := db\<rparr>,
           if lvl \<noteq> 0 \<and> levelup_send_ok env then [LevelUpSent (m_author m) lvl] else []))"

definition trivia_matches :: "string \<Rightarrow> string \<Rightarrow> bool" where
  "trivia_matches content answer = (lower (strip content) = answer)"

text \<open>
  Lines 479-484, up to the \<open>await\<close> of line 485: the answer check and, for a correct
  answer, the score write. The result carries the new total, which the announcement
  of line 485 quotes.
\<close>

definition trivia_check :: "message \<Rightarrow> state \<Rightarrow> state \<times> int option" where
  "trivia_check m st =
     (case active_trivia st (m_channel m) of
        None \<Rightarrow> (st, None)
      | Some (answer, asker) \<Rightarrow>
          if trivia_matches (m_content m) answer
          then
            (let uid = m_author m;
                 total = (case trivia_scores st uid of None \<Rightarrow> 0 | Some n \<Rightarrow> n) + 1
             in (st\<lparr>trivia_scores := (trivia_scores st)(uid \<mapsto> total)\<rparr>, Some total))
          else (st, None))"

text \<open>
  Lines 485-490, from the moment the awaited send has returned or raised, on the state
  as it is then. When the send raised, the \<open>except\<close> of line 489 is entered with the
  session still in place. When it returned, \<open>del active_trivia[...]\<close> clears the
  session, or raises \<open>KeyError\<close> if another handler has cleared it meanwhile, which
  also ends in the \<open>except\<close>. The last component tells whether the handler returns
  here, after \<open>bot.process_commands\<close>; otherwise it goes on to line 492.
\<close>

definition trivia_announced ::
  "msg_env \<Rightarrow> message \<Rightarrow> int \<Rightarrow> state \<Rightarrow> state \<times> event list \<times> bool" where
  "trivia_announced env m tot st =
     (if trivia_send_ok env
      then
        (case active_trivia st (m_channel m) of
           None \<Rightarrow> (st, [TriviaCorrectSent (m_author m) tot, TriviaFailedLogged], False)
         | Some session \<Rightarrow>
             (st\<lparr>active_trivia := (active_trivia st)(m_channel m := None)\<rparr>,
              [TriviaCorrectSent (m_author m) tot, CommandsProcessed], True))
      else (st, [TriviaFailedLogged], False))"

text \<open>Lines 478-490 with no other handler running during the \<open>await\<close>.\<close>

definition trivia_step :: "msg_env \<Rightarrow> message \<Rightarrow> state \<Rightarrow> state \<times> event list \<times> bool" where
  "trivia_step env m st =
     (case trivia_check m st of
        (st1, None) \<Rightarrow> (st1, [], False)
      | (st1, Some tot) \<Rightarrow> trivia_announced env m tot st1)"

text \<open>Lines 498-501 and 503-506: the cooldown gate of auto-react.\<close>

definition react_gate :: "config \<Rightarrow> msg_env \<Rightarrow> message \<Rightarrow> state \<Rightarrow> state \<times> event list" where
  "react_gate cfg env m st =
     (let key = (m_author m, m_channel m) in
      if now_time env - (case last_react_time st key of None \<Rightarrow> 0 | Some t \<Rightarrow> t)
           \<ge> real_of_int (AUTO_REACT_COOLDOWN cfg)
      then (st\<lparr>last_react_time := (last_react_time st)(key \<mapsto> now_time env)\<rparr>,
            [ReactionsTried (m_author m) (m_channel m)])
      else (st, []))"

text \<open>Lines 494-508; \<open>try_add_reactions\<close> handles its own exceptions.\<close>

definition auto_react :: "config \<Rightarrow> msg_env \<Rightarrow> message \<Rightarrow> state \<Rightarrow> state \<times> event list" where
  "auto_react cfg env m st =
     (if AUTO_REACT_CHANNEL_IDS cfg \<noteq> [] \<and> m_channel m \<in> set (AUTO_REACT_CHANNEL_IDS cfg)
      then
        (if AUTO_REACT_KEYWORDS cfg \<noteq> []
         then
           (if list_ex (\<lambda>kw. contains (lower (m_content m)) kw) (AUTO_REACT_KEYWORDS cfg)
            then react_gate cfg env m st
            else (st, []))
         else react_gate cfg env m st)
      else (st, []))"

text \<open>Lines 511-520; \<open>try_send_auto_reply\<close> handles its own exceptions.\<close>

definition auto_reply :: "config \<Rightarrow> msg_env \<Rightarrow> message \<Rightarrow> state \<Rightarrow> state \<times> event list" where
  "auto_reply cfg env m st =
     (if AUTO_REPLY_CHANNEL_IDS cfg \<noteq> [] \<and> m_channel m \<in> set (AUTO_REPLY_CHANNEL_IDS cfg)
      then
        (if AUTO_REPLY_KEYWORDS cfg = [] \<or>
            list_ex (\<lambda>kw. contains (lower (m_content m)) kw) (AUTO_REPLY_KEYWORDS cfg)
         then
           (let key = (m_author m, m_channel m) in
            if now_time env - (case last_reply_time st key of None \<Rightarrow> 0 | Some t \<Rightarrow> t)
                 \<ge> real_of_int (AUTO_REPLY_COOLDOWN cfg)
            then
              (if randint 1 100 (reply_seed env) \<le> AUTO_REPLY_CHANCE cfg
               then (st\<lparr>last_reply_time := (last_reply_time st)(key \<mapsto> now_time env)\<rparr>,
                     [AutoReplyTried (m_author m) (m_channel m)])
               else (st, []))
            else (st, []))
         else (st, []))
      else (st, []))"

text \<open>\<open>on_message\<close> (lines 461-522), run with no other handler in between.
  \<open>CommandsProcessed\<close> stands for the call of \<open>bot.process_commands(message)\<close>, the
  framework's prefix command dispatch.\<close>

definition on_message :: "config \<Rightarrow> msg_env \<Rightarrow> message \<Rightarrow> state \<Rightarrow> state \<times> event list" where
  "on_message cfg env m st =
     (if m_author_bot m then (st, [])
      else
        (case xp_step env m st of
           (st1, ev1) \<Rightarrow>
             (case trivia_step env m st1 of
                (st2, ev2, True) \<Rightarrow> (st2, ev1 @ ev2)
              | (st2, ev2, False) \<Rightarrow>
                  (case auto_react cfg env m st2 of
                     (st3, ev3) \<Rightarrow>
                       (case auto_reply cfg env m st3 of
                          (st4, ev4) \<Rightarrow> (st4, ev1 @ ev2 @ ev3 @ ev4 @ [CommandsProcessed]))))))"

text \<open>
  The trivia steps of two handlers that overlap: the second message arrives while the
  first handler awaits its announcement, and the first announcement returns first.
  The result is the state and what each of the two handlers emitted in its step.
\<close>

definition trivia_overlap ::
  "msg_env \<Rightarrow> message \<Rightarrow> msg_env \<Rightarrow> message \<Rightarrow> state \<Rightarrow> state \<times> event list \<times> event list" where
  "trivia_overlap env1 m1 env2 m2 st =
     (case trivia_check m1 st of
        (st1, r1) \<Rightarrow>
          (case trivia_check m2 st1 of
             (st2, r2) \<Rightarrow>
               (case (case r1 of None \<Rightarrow> (st2, [], False)
                              | Some tot \<Rightarrow> trivia_announced env1 m1 tot st2) of
                  (st3, ev1, stop1) \<Rightarrow>
                    (case (case r2 of None \<Rightarrow> (st3, [], False)
                                   | Some tot \<Rightarrow> trivia_announced env2 m2 tot st3) of
                       (st4, ev2, stop2) \<Rightarrow> (st4, ev1, ev2)))))"

text \<open>The handler on a sequence of messages, each with its environment.\<close>

fun on_messages :: "config \<Rightarrow> (msg_env \<times> message) list \<Rightarrow> state \<Rightarrow> state \<times> event list list" where
  "on_messages cfg [] st = (st, [])"
| "on_messages cfg ((env, m) # ms) st =
     (case on_message cfg env m st of
        (st1, evs) \<Rightarrow>
          (case on_messages cfg ms st1 of
             (st2, evss) \<Rightarrow> (st2, evs # evss)))"

definition score_of :: "state \<Rightarrow> int \<Rightarrow> int" where
  "score_of st uid = (case trivia_scores st uid of None \<Rightarrow> 0 | Some n \<Rightarrow> n)"

subsection \<open>Reaction roles\<close>

text \<open>A row of the table \<open>reaction_roles\<close> and the fields of the raw reaction payload
  the handlers read; \<open>p_guild\<close> is \<open>None\<close> in a direct message.\<close>

record binding =
  b_guild :: int
  b_channel :: int
  b_message :: int
  b_emoji :: string
  b_role :: int

record payload =
  p_user :: int
  p_guild :: "int option"
  p_message :: int
  p_emoji :: string

text \<open>What the handlers ask the Discord cache: the bot's own user id, and whether a
  guild, a role of a guild and a member of a guild resolve.\<close>

record discord_env =
  bot_user :: int
  guild_known :: "int \<Rightarrow> bool"
  role_known :: "int \<Rightarrow> int \<Rightarrow> bool"
  member_known :: "int \<Rightarrow> int \<Rightarrow> bool"

datatype role_action =
    NoAction
  | AddRoles int int int
  | RemoveRoles int int int
  | Raised error

text \<open>The \<open>SELECT\<close> of lines 608-610 and 626-628 with \<open>fetchone\<close>: the first row that
  matches; a \<open>NULL\<close> guild id matches no row.\<close>

definition find_binding :: "binding list \<Rightarrow> payload \<Rightarrow> binding option" where
  "find_binding tbl p =
     (case p_guild p of
        None \<Rightarrow> None
      | Some g \<Rightarrow>
          find (\<lambda>b. b_guild b = g \<and> b_message b = p_message p \<and> b_emoji b = p_emoji p) tbl)"

text \<open>Lines 612-620 and 630-638: \<open>guild.get_role\<close> on an unresolved guild raises
  \<open>AttributeError\<close>; the role call is attempted when member and role resolve.\<close>

definition resolve_binding ::
  "discord_env \<Rightarrow> binding list \<Rightarrow> payload \<Rightarrow> (int \<Rightarrow> int \<Rightarrow> int \<Rightarrow> role_action) \<Rightarrow> role_action" where
  "resolve_binding env tbl p act =
     (case find_binding tbl p of
        None \<Rightarrow> NoAction
      | Some row \<Rightarrow>
          (case p_guild p of
             None \<Rightarrow> Raised AttributeError
           | Some g \<Rightarrow>
               if \<not> guild_known env g then Raised AttributeError
               else if member_known env g (p_user p) \<and> role_known env g (b_role row)
               then act g (p_user p) (b_role row)
               else NoAction))"

definition on_raw_reaction_add :: "discord_env \<Rightarrow> binding list \<Rightarrow> payload \<Rightarrow> role_action" where
  "on_raw_reaction_add env tbl p =
     (if p_user p = bot_user env then NoAction
      else resolve_binding env tbl p AddRoles)"

definition on_raw_reaction_remove :: "discord_env \<Rightarrow> binding list \<Rightarrow> payload \<Rightarrow> role_action" where
  "on_raw_reaction_remove env tbl p = resolve_binding env tbl p RemoveRoles"

text \<open>Whether the cycle reaches the \<open>DELETE\<close> for a due row: the channel does not
  resolve, or the send returns.\<close>

definition removes :: "cycle_env \<Rightarrow> reminder \<Rightarrow> bool" where
  "removes env r = (\<not> chan_ok env (r_channel r) \<or> send_ok env r)"

text \<open>Sample rows and environments: a reminder due at 5, one due at 50, a Discord
  where every send raises and one where every send returns.\<close>

definition due_row :: reminder where
  "due_row = \<lparr>rid = 1, r_user = 7, r_guild = None, r_channel = 3, remind_at = 5,
              r_content = ''tea'', created_at = 2\<rparr>"

definition late_row :: reminder where
  "late_row = due_row\<lparr>rid := 2, remind_at := 50\<rparr>"

definition failing_env :: cycle_env where
  "failing_env = \<lparr>chan_ok = (\<lambda>c. True), send_ok = (\<lambda>r. False)\<rparr>"

definition working_env :: cycle_env where
  "working_env = \<lparr>chan_ok = (\<lambda>c. True), send_ok = (\<lambda>r. True)\<rparr>"

text \<open>The empty reminders table.\<close>

definition empty_tbl :: reminders_tbl where
  "empty_tbl = \<lparr>r_rows = [], last_rid = 0\<rparr>"

text \<open>The characters \<open>int()\<close> tolerates in a decimal integer.\<close>

definition int_char :: "char \<Rightarrow> bool" where
  "int_char c =
     (is_digit c \<or> c = CHR ''_'' \<or> c = CHR ''+'' \<or> c = CHR ''-'' \<or> is_int_space c)"

text \<open>
  A sample run: the configuration with no auto-react and auto-reply channels, the state
  of a fresh process, the state after \<open>!trivia\<close> of user 1 in channel 3 drew the first
  question, an answer of user 7 in that channel, and environments in which the
  announcements are sent or the trivia announcement raises.
\<close>

definition quiet_cfg :: config where
  "quiet_cfg = \<lparr>AUTO_REACT_CHANNEL_IDS = [], AUTO_REACT_KEYWORDS = [], AUTO_REACT_COOLDOWN = 10,
                 AUTO_REPLY_CHANNEL_IDS = [], AUTO_REPLY_KEYWORDS = [], AUTO_REPLY_CHANCE = 15,
                 AUTO_REPLY_COOLDOWN = 30\<rparr>"

definition init_state :: state where
  "init_state = \<lparr>users_tbl = Map.empty, trivia_scores = Map.empty, active_trivia = Map.empty,
                  last_react_time = Map.empty, last_reply_time = Map.empty\<rparr>"

definition paris_state :: state where
  "paris_state = trivia_cmd 0 3 1 init_state"

definition paris_msg :: message where
  "paris_msg = \<lparr>m_author = 7, m_author_bot = False, m_channel = 3, m_content = '' Paris''\<rparr>"

definition env_ok :: msg_env where
  "env_ok = \<lparr>xp_seed = 0, levelup_send_ok = True, trivia_send_ok = True, now_time = 1000,
              reply_seed = 0, pow_trunc = (\<lambda>y. 0)\<rparr>"

definition env_send_fails :: msg_env where
  "env_send_fails = env_ok\<lparr>trivia_send_ok := False\<rparr>"


text \<open>\<open>_last_react_time.get(key, 0)\<close> and \<open>_last_reply_time.get(key, 0)\<close>.\<close>

definition react_last :: "state \<Rightarrow> int \<times> int \<Rightarrow> real" where
  "react_last st key = (case last_react_time st key of None \<Rightarrow> 0 | Some t \<Rightarrow> t)"

definition reply_last :: "state \<Rightarrow> int \<times> int \<Rightarrow> real" where
  "reply_last st key = (case last_reply_time st key of None \<Rightarrow> 0 | Some t \<Rightarrow> t)"

text \<open>A sample chat: channel 3 is configured for auto-react (keyword \<open>tea\<close>, cooldown
  10) and auto-reply (cooldown 30); user 7 sends the same message at 1000, 1005, 1010.\<close>

definition busy_cfg :: config where
  "busy_cfg = \<lparr>AUTO_REACT_CHANNEL_IDS = [3], AUTO_REACT_KEYWORDS = [''tea''],
                AUTO_REACT_COOLDOWN = 10,
                AUTO_REPLY_CHANNEL_IDS = [3], AUTO_REPLY_KEYWORDS = [], AUTO_REPLY_CHANCE = 15,
                AUTO_REPLY_COOLDOWN = 30\<rparr>"

definition tea_msg :: message where
  "tea_msg = \<lparr>m_author = 7, m_author_bot = False, m_channel = 3, m_content = ''More TEA?''\<rparr>"

definition tea_chat :: "(msg_env \<times> message) list" where
  "tea_chat = [(env_ok, tea_msg), (env_ok\<lparr>now_time := 1005\<rparr>, tea_msg),
               (env_ok\<lparr>now_time := 1010\<rparr>, tea_msg)]"

text \<open>
  Invariants of the reminders table (ids are distinct and none exceeds the counter) and
  of the trivia sessions (every stored answer comes from the question pool).
\<close>

definition reminders_inv :: "reminders_tbl \<Rightarrow> bool" where
  "reminders_inv tbl =
     (distinct (map rid (r_rows tbl)) \<and> (\<forall>r\<in>set (r_rows tbl). rid r \<le> last_rid tbl))"

definition sessions_inv :: "state \<Rightarrow> bool" where
  "sessions_inv st =
     (\<forall>c answer asker. active_trivia st c = Some (answer, asker)
        \<longrightarrow> answer \<in> snd ` set TRIVIA_QUESTIONS)"

section \<open>Properties\<close>

subsection \<open>The integer square root\<close>

lemma isqrt_lower: "isqrt n * isqrt n \<le> n"
  by (induction n) (auto simp: Let_def)

lemma isqrt_upper: "n < Suc (isqrt n) * Suc (isqrt n)"
proof (induction n)
  case 0
  show ?case by simp
next
  case (Suc n)
  show ?case
  proof (cases "Suc (isqrt n) * Suc (isqrt n) \<le> Suc n")
    case True
    then have "isqrt (Suc n) = Suc (isqrt n)" by (simp add: Let_def)
    moreover from Suc have "Suc n \<le> Suc (isqrt n) * Suc (isqrt n)" by simp
    ultimately show ?thesis by simp
  next
    case False
    then show ?thesis by (simp add: Let_def)
  qed
qed

lemma isqrt_mono: "m \<le> n \<Longrightarrow> isqrt m \<le> isqrt n"
proof (rule ccontr)
  assume mn: "m \<le> n" and "\<not> isqrt m \<le> isqrt n"
  then have "Suc (isqrt n) \<le> isqrt m" by simp
  then have "Suc (isqrt n) * Suc (isqrt n) \<le> isqrt m * isqrt m"
    by (simp only: mult_le_mono)
  also have "\<dots> \<le> m" by (rule isqrt_lower)
  finally have "Suc (isqrt n) * Suc (isqrt n) \<le> n" using mn by simp
  with isqrt_upper [of n] show False by simp
qed



subsection \<open>XP and levels\<close>

lemma int_sqrt_small:
  assumes "0 \<le> x" and "x < 2 ^ 52"
  shows "int_sqrt pt x = Inr (int (isqrt (nat x)))"
proof -
  from assms(2) have "x < 2 ^ 53" by simp
  then have d: "to_double x = x" by (simp add: to_double_def)
  have "(2::int) ^ 52 < 2 ^ 1024" by simp
  with assms(2) have "\<not> 2 ^ 1024 \<le> x" by linarith
  with assms d show ?thesis by (simp add: int_sqrt_def Let_def)
qed

lemma add_xp_row:
  "add_xp pt db uid amount =
     (let r0 = (case db uid of None \<Rightarrow> \<lparr>coins = 0, xp = 0, level = 0, last_daily = 0\<rparr> | Some r \<Rightarrow> r);
          r1 = r0\<lparr>xp := xp r0 + amount\<rparr>
      in case int_sqrt pt (xp r1) of
           Inl e \<Rightarrow> (db(uid \<mapsto> r1), Inl e)
         | Inr new_level \<Rightarrow>
             if new_level > level r1
             then (db(uid \<mapsto> r1\<lparr>level := new_level\<rparr>), Inr (Some new_level))
             else (db(uid \<mapsto> r1), Inr None))"
  by (auto simp: add_xp_def ensure_user_def sql_update_def Let_def
      split: option.splits sum.splits)


lemma level_ok_grow:
  assumes "level_ok r" and "0 \<le> amount" and "xp r + amount < 2 ^ 52"
  shows "level r \<le> int (isqrt (nat (xp r + amount)))"
proof -
  from assms have "nat (xp r) \<le> nat (xp r + amount)" by simp
  then have "isqrt (nat (xp r)) \<le> isqrt (nat (xp r + amount))" by (rule isqrt_mono)
  moreover from assms have "level r = int (isqrt (nat (xp r)))" by (simp add: level_ok_def)
  ultimately show ?thesis by simp
qed

lemma add_xp_inv:
  assumes "users_inv db" and "0 \<le> amount"
  shows "users_inv (fst (add_xp pt db uid amount))"
proof -
  have zero: "level_ok \<lparr>coins = 0, xp = 0, level = 0, last_daily = 0\<rparr>"
    by (simp add: level_ok_def)
  define r0 where "r0 = (case db uid of None \<Rightarrow> \<lparr>coins = 0, xp = 0, level = 0, last_daily = 0\<rparr> | Some r \<Rightarrow> r)"
  have ok0: "level_ok r0"
    using assms(1) zero by (auto simp: r0_def users_inv_def split: option.splits)
  have nonneg: "0 \<le> xp r0 + amount"
    using ok0 assms(2) by (simp add: level_ok_def)
  have others: "\<And>u r. u \<noteq> uid \<Longrightarrow> db u = Some r \<Longrightarrow> level_ok r"
    using assms(1) by (simp add: users_inv_def)
  show ?thesis
  proof (cases "xp r0 + amount < 2 ^ 52")
    case True
    have grow: "level r0 \<le> int (isqrt (nat (xp r0 + amount)))"
      using ok0 assms(2) True by (rule level_ok_grow)
    have "int_sqrt pt (xp r0 + amount) = Inr (int (isqrt (nat (xp r0 + amount))))"
      using nonneg True by (rule int_sqrt_small)
    with grow nonneg others show ?thesis
      by (auto simp: add_xp_row users_inv_def level_ok_def Let_def r0_def [symmetric])
  next
    case False
    with nonneg others show ?thesis
      by (auto simp: add_xp_row users_inv_def level_ok_def Let_def r0_def [symmetric]
          split: sum.splits)
  qed
qed










subsection \<open>Economy\<close>

lemma change_coins_row:
  "change_coins db uid delta =
     (let r0 = (case db uid of None \<Rightarrow> \<lparr>coins = 0, xp = 0, level = 0, last_daily = 0\<rparr> | Some r \<Rightarrow> r)
      in (db(uid \<mapsto> r0\<lparr>coins := coins r0 + delta\<rparr>), Inr (coins r0 + delta)))"
  by (auto simp: change_coins_def ensure_user_def sql_update_def Let_def split: option.splits)

lemma coins_of_change_coins:
  "coins_of (fst (change_coins db uid delta)) u = (if u = uid then coins_of db u + delta else coins_of db u)"
  by (simp add: change_coins_row Let_def coins_of_def split: option.splits)

lemma cmd_give_rejects:
  assumes "amount \<le> 0 \<or> coins_of db author < amount"
  shows "fst (cmd_give db author member amount) = db"
  using assms
  by (auto simp: cmd_give_def balance_check_def get_user_def coins_of_def
      split: option.splits sum.splits bool.splits prod.splits)

lemma cmd_give_accepts:
  assumes "0 < amount" and "amount \<le> coins_of db author"
  shows "cmd_give db author member amount =
           (fst (change_coins (fst (change_coins db author (- amount))) member amount),
            Inr (Gave author member amount))"
proof -
  from assms obtain row where row: "db author = Some row" and enough: "\<not> coins row < amount"
    by (auto simp: coins_of_def split: option.splits)
  then have "balance_check db author amount = Inr False"
    by (simp add: balance_check_def get_user_def)
  with assms(1) show ?thesis
    by (simp add: cmd_give_def change_coins_row Let_def)
qed

text \<open>
  Claim C3. For a sender and a recipient that differ: when \<open>amount \<le> 0\<close> or the
  sender's balance is below \<open>amount\<close>, \<open>cmd_give\<close> leaves the store as it is, so no
  coin balance changes; otherwise it answers with the transfer, the sender has
  \<open>amount\<close> less, the recipient \<open>amount\<close> more, nobody else's balance changes and the
  sum of the two balances is the same. A user without a row has balance 0.
\<close>

theorem cmd_give_transfer:
  assumes "author \<noteq> member"
  shows "(amount \<le> 0 \<or> coins_of db author < amount \<longrightarrow>
            fst (cmd_give db author member amount) = db \<and>
            (\<forall>u. coins_of (fst (cmd_give db author member amount)) u = coins_of db u)) \<and>
         (0 < amount \<and> amount \<le> coins_of db author \<longrightarrow>
            snd (cmd_give db author member amount) = Inr (Gave author member amount) \<and>
            coins_of (fst (cmd_give db author member amount)) author = coins_of db author - amount \<and>
            coins_of (fst (cmd_give db author member amount)) member = coins_of db member + amount \<and>
            (\<forall>u. u \<noteq> author \<and> u \<noteq> member \<longrightarrow>
                coins_of (fst (cmd_give db author member amount)) u = coins_of db u) \<and>
            coins_of (fst (cmd_give db author member amount)) author +
              coins_of (fst (cmd_give db author member amount)) member =
            coins_of db author + coins_of db member)"
proof (intro conjI impI)
  assume rej: "amount \<le> 0 \<or> coins_of db author < amount"
  then show same: "fst (cmd_give db author member amount) = db" by (rule cmd_give_rejects)
  show "\<forall>u. coins_of (fst (cmd_give db author member amount)) u = coins_of db u"
    by (simp add: same)
next
  assume acc: "0 < amount \<and> amount \<le> coins_of db author"
  then have run: "cmd_give db author member amount =
           (fst (change_coins (fst (change_coins db author (- amount))) member amount),
            Inr (Gave author member amount))"
    by (simp add: cmd_give_accepts)
  show "snd (cmd_give db author member amount) = Inr (Gave author member amount)"
    by (simp add: run)
  show a: "coins_of (fst (cmd_give db author member amount)) author = coins_of db author - amount"
    using assms by (simp add: run coins_of_change_coins)
  show b: "coins_of (fst (cmd_give db author member amount)) member = coins_of db member + amount"
    using assms by (simp add: run coins_of_change_coins)
  show "\<forall>u. u \<noteq> author \<and> u \<noteq> member \<longrightarrow>
          coins_of (fst (cmd_give db author member amount)) u = coins_of db u"
    by (simp add: run coins_of_change_coins)
  show "coins_of (fst (cmd_give db author member amount)) author +
          coins_of (fst (cmd_give db author member amount)) member =
        coins_of db author + coins_of db member"
    by (simp add: a b)
qed

theorem cmd_give_transfer_witness:
  "(1::int) \<noteq> 2 \<and>
   cmd_give [1 \<mapsto> \<lparr>coins = 10, xp = 0, level = 0, last_daily = 0\<rparr>] 1 2 4 =
     ([1 \<mapsto> \<lparr>coins = 6, xp = 0, level = 0, last_daily = 0\<rparr>,
       2 \<mapsto> \<lparr>coins = 4, xp = 0, level = 0, last_daily = 0\<rparr>], Inr (Gave 1 2 4)) \<and>
   coins_of (fst (cmd_give [1 \<mapsto> \<lparr>coins = 10, xp = 0, level = 0, last_daily = 0\<rparr>] 1 2 4)) 1 = 6 \<and>
   coins_of (fst (cmd_give [1 \<mapsto> \<lparr>coins = 10, xp = 0, level = 0, last_daily = 0\<rparr>] 1 2 4)) 2 = 4 \<and>
   cmd_give [1 \<mapsto> \<lparr>coins = 10, xp = 0, level = 0, last_daily = 0\<rparr>] 1 2 11 =
     ([1 \<mapsto> \<lparr>coins = 10, xp = 0, level = 0, last_daily = 0\<rparr>], Inr NotEnoughCoins) \<and>
   cmd_give [1 \<mapsto> \<lparr>coins = 10, xp = 0, level = 0, last_daily = 0\<rparr>] 1 2 0 =
     ([1 \<mapsto> \<lparr>coins = 10, xp = 0, level = 0, last_daily = 0\<rparr>], Inr EnterAmount)"
proof -
  have ne: "(1::int) \<noteq> 2" by simp
  let ?db = "[1 \<mapsto> \<lparr>coins = 10, xp = 0, level = 0, last_daily = 0\<rparr>] :: users"
  have c: "coins_of ?db 1 = 10" "coins_of ?db 2 = 0" by (simp_all add: coins_of_def)
  note main = cmd_give_transfer [OF ne, where db = "?db" and amount = 4]
  from main c have
    "coins_of (fst (cmd_give ?db 1 2 4)) 1 = 6 \<and> coins_of (fst (cmd_give ?db 1 2 4)) 2 = 4"
    by simp
  moreover have "cmd_give ?db 1 2 4 =
     ([1 \<mapsto> \<lparr>coins = 6, xp = 0, level = 0, last_daily = 0\<rparr>,
       2 \<mapsto> \<lparr>coins = 4, xp = 0, level = 0, last_daily = 0\<rparr>], Inr (Gave 1 2 4))"
    by (simp add: cmd_give_def balance_check_def get_user_def change_coins_row Let_def)
  moreover have "cmd_give ?db 1 2 11 = (?db, Inr NotEnoughCoins)"
    by (simp add: cmd_give_def balance_check_def get_user_def)
  moreover have "cmd_give ?db 1 2 0 = (?db, Inr EnterAmount)"
    by (simp add: cmd_give_def)
  ultimately show ?thesis using ne by simp
qed

text \<open>
  Claim C9. When the sender has no row in \<open>users\<close>, the sender-balance check raises
  \<open>TypeError\<close> (\<open>get_user\<close> returns \<open>None\<close> and indexing it fails): a positive amount
  makes \<open>cmd_give\<close> end in that exception, never in the reply \<open>Not enough coins.\<close>,
  and the store, hence every coin balance, is unchanged. (An amount \<open>\<le> 0\<close> is turned
  away before the check is reached.)
\<close>

theorem cmd_give_missing_sender:
  assumes "db author = None"
  shows "get_user db author = None \<and>
         balance_check db author amount = Inl TypeError \<and>
         cmd_give db author member amount =
           (db, if amount \<le> 0 then Inr EnterAmount else Inl TypeError) \<and>
         snd (cmd_give db author member amount) \<noteq> Inr NotEnoughCoins \<and>
         (\<forall>u. coins_of (fst (cmd_give db author member amount)) u = coins_of db u)"
  using assms by (simp add: cmd_give_def balance_check_def get_user_def)

theorem cmd_give_missing_sender_witness:
  "[2 \<mapsto> \<lparr>coins = 10, xp = 0, level = 0, last_daily = 0\<rparr>] (1::int) = None \<and>
   cmd_give [2 \<mapsto> \<lparr>coins = 10, xp = 0, level = 0, last_daily = 0\<rparr>] 1 2 5 =
     ([2 \<mapsto> \<lparr>coins = 10, xp = 0, level = 0, last_daily = 0\<rparr>], Inl TypeError)"
proof -
  have none: "[2 \<mapsto> \<lparr>coins = 10, xp = 0, level = 0, last_daily = 0\<rparr>] (1::int) = None"
    by simp
  from cmd_give_missing_sender
         [where db = "[2 \<mapsto> \<lparr>coins = 10, xp = 0, level = 0, last_daily = 0\<rparr>]"
            and author = 1 and amount = 5 and member = 2] none
  show ?thesis by simp
qed

lemma randint_range:
  assumes "a \<le> b"
  shows "a \<le> randint a b seed \<and> randint a b seed \<le> b"
proof -
  from assms have pos: "0 < b - a + 1" by simp
  have "0 \<le> int seed mod (b - a + 1)" using pos by simp
  moreover have "int seed mod (b - a + 1) < b - a + 1" using pos by (rule pos_mod_bound)
  ultimately show ?thesis unfolding randint_def by linarith
qed

lemma cmd_daily_row:
  "cmd_daily db author now seed =
     (let r0 = (case db author of None \<Rightarrow> \<lparr>coins = 0, xp = 0, level = 0, last_daily = 0\<rparr> | Some r \<Rightarrow> r)
      in if now - last_daily r0 < 86400
         then (db(author \<mapsto> r0), Inr DailyAlreadyClaimed)
         else (db(author \<mapsto> r0\<lparr>coins := coins r0 + randint 50 150 seed, last_daily := now\<rparr>),
               Inr (DailyClaimed author (randint 50 150 seed))))"
  by (auto simp: cmd_daily_def ensure_user_def get_user_def change_coins_row sql_update_def
      Let_def split: option.splits)

text \<open>
  Claim C5. When \<open>now - last_daily < 86400\<close>, \<open>cmd_daily\<close> answers that the daily is
  already claimed and no user's coins or \<open>last_daily\<close> change. Otherwise it answers
  with a reward between 50 and 150, the user's coins grow by that reward, the user's
  \<open>last_daily\<close> becomes \<open>now\<close>, and nobody else's coins or \<open>last_daily\<close> change.
  A user without a row reads as coins 0 and \<open>last_daily\<close> 0, the row \<open>ensure_user\<close>
  inserts first.
\<close>

theorem cmd_daily_claim:
  "(now - last_daily_of db author < 86400 \<longrightarrow>
      snd (cmd_daily db author now seed) = Inr DailyAlreadyClaimed \<and>
      (\<forall>u. coins_of (fst (cmd_daily db author now seed)) u = coins_of db u \<and>
           last_daily_of (fst (cmd_daily db author now seed)) u = last_daily_of db u)) \<and>
   (\<not> now - last_daily_of db author < 86400 \<longrightarrow>
      (\<exists>reward. 50 \<le> reward \<and> reward \<le> 150 \<and>
         snd (cmd_daily db author now seed) = Inr (DailyClaimed author reward) \<and>
         coins_of (fst (cmd_daily db author now seed)) author = coins_of db author + reward) \<and>
      last_daily_of (fst (cmd_daily db author now seed)) author = now \<and>
      (\<forall>u. u \<noteq> author \<longrightarrow>
           coins_of (fst (cmd_daily db author now seed)) u = coins_of db u \<and>
           last_daily_of (fst (cmd_daily db author now seed)) u = last_daily_of db u))"
proof -
  define r0 where "r0 = (case db author of None \<Rightarrow> \<lparr>coins = 0, xp = 0, level = 0, last_daily = 0\<rparr> | Some r \<Rightarrow> r)"
  have c0: "coins_of db author = coins r0" and l0: "last_daily_of db author = last_daily r0"
    by (auto simp: coins_of_def last_daily_of_def r0_def split: option.splits)
  have range: "50 \<le> randint 50 150 seed \<and> randint 50 150 seed \<le> 150"
    by (rule randint_range) simp
  show ?thesis
  proof (cases "now - last_daily r0 < 86400")
    case True
    then have run: "cmd_daily db author now seed = (db(author \<mapsto> r0), Inr DailyAlreadyClaimed)"
      by (simp add: cmd_daily_row Let_def r0_def)
    have "coins_of (db(author \<mapsto> r0)) u = coins_of db u" for u
      by (simp add: coins_of_def r0_def split: option.splits)
    moreover have "last_daily_of (db(author \<mapsto> r0)) u = last_daily_of db u" for u
      by (simp add: last_daily_of_def r0_def split: option.splits)
    ultimately show ?thesis using True by (simp add: run l0)
  next
    case False
    define db' where "db' = db(author \<mapsto> r0\<lparr>coins := coins r0 + randint 50 150 seed, last_daily := now\<rparr>)"
    from False have run: "cmd_daily db author now seed =
        (db', Inr (DailyClaimed author (randint 50 150 seed)))"
      by (simp add: cmd_daily_row Let_def r0_def db'_def)
    have a: "coins_of db' author = coins r0 + randint 50 150 seed"
      and b: "last_daily_of db' author = now"
      by (simp_all add: db'_def coins_of_def last_daily_of_def)
    have c: "u \<noteq> author \<Longrightarrow> coins_of db' u = coins_of db u \<and> last_daily_of db' u = last_daily_of db u" for u
      by (simp add: db'_def coins_of_def last_daily_of_def)
    show ?thesis using False range a b c by (auto simp: run l0 c0)
  qed
qed

theorem cmd_daily_claim_witness:
  "cmd_daily [1 \<mapsto> \<lparr>coins = 5, xp = 0, level = 0, last_daily = 1000\<rparr>] 1 87399 7 =
     ([1 \<mapsto> \<lparr>coins = 5, xp = 0, level = 0, last_daily = 1000\<rparr>], Inr DailyAlreadyClaimed) \<and>
   cmd_daily [1 \<mapsto> \<lparr>coins = 5, xp = 0, level = 0, last_daily = 1000\<rparr>] 1 87400 7 =
     ([1 \<mapsto> \<lparr>coins = 62, xp = 0, level = 0, last_daily = 87400\<rparr>], Inr (DailyClaimed 1 57)) \<and>
   last_daily_of (fst (cmd_daily [1 \<mapsto> \<lparr>coins = 5, xp = 0, level = 0, last_daily = 1000\<rparr>] 1 87400 7)) 1
     = 87400"
proof -
  let ?db = "[1 \<mapsto> \<lparr>coins = 5, xp = 0, level = 0, last_daily = 1000\<rparr>] :: users"
  have l: "last_daily_of ?db 1 = 1000" by (simp add: last_daily_of_def)
  from cmd_daily_claim [where db = "?db" and author = 1 and now = 87400 and seed = 7] l
  have "last_daily_of (fst (cmd_daily ?db 1 87400 7)) 1 = 87400" by simp
  moreover have "cmd_daily ?db 1 87399 7 = (?db, Inr DailyAlreadyClaimed)"
    by (simp add: cmd_daily_row Let_def)
  moreover have "cmd_daily ?db 1 87400 7 =
     ([1 \<mapsto> \<lparr>coins = 62, xp = 0, level = 0, last_daily = 87400\<rparr>], Inr (DailyClaimed 1 57))"
    by (simp add: cmd_daily_row Let_def randint_def)
  ultimately show ?thesis by simp
qed

subsection \<open>Reaction roles\<close>

text \<open>
  Claim C10. \<open>on_raw_reaction_add\<close> does nothing for an event of the bot's own user.
  \<open>on_raw_reaction_remove\<close> has no such filter: for an event of the bot's own user
  whose guild, message and emoji match a binding, with the guild, the bot's member
  and the bound role resolving, it looks the binding up and attempts to remove the
  bound role from the bot's member.
\<close>

theorem reaction_remove_no_self_filter:
  assumes "p_user p = bot_user env"
    and "p_guild p = Some g"
    and "find_binding tbl p = Some row"
    and "guild_known env g"
    and "member_known env g (bot_user env)"
    and "role_known env g (b_role row)"
  shows "on_raw_reaction_add env tbl p = NoAction \<and>
         on_raw_reaction_remove env tbl p = RemoveRoles g (bot_user env) (b_role row) \<and>
         b_guild row = g \<and> b_message row = p_message p \<and> b_emoji row = p_emoji p"
proof -
  from assms(2,3) have
    "find (\<lambda>b. b_guild b = g \<and> b_message b = p_message p \<and> b_emoji b = p_emoji p) tbl = Some row"
    by (simp add: find_binding_def)
  then have "b_guild row = g \<and> b_message row = p_message p \<and> b_emoji row = p_emoji p"
    by (auto simp: find_Some_iff)
  with assms show ?thesis
    by (simp add: on_raw_reaction_add_def on_raw_reaction_remove_def resolve_binding_def)
qed

theorem reaction_remove_no_self_filter_witness:
  "on_raw_reaction_add
     \<lparr>bot_user = 99, guild_known = (\<lambda>g. g = 1), role_known = (\<lambda>g r. r = 5),
      member_known = (\<lambda>g u. True)\<rparr>
     [\<lparr>b_guild = 1, b_channel = 2, b_message = 3, b_emoji = ''x'', b_role = 5\<rparr>]
     \<lparr>p_user = 99, p_guild = Some 1, p_message = 3, p_emoji = ''x''\<rparr> = NoAction \<and>
   on_raw_reaction_remove
     \<lparr>bot_user = 99, guild_known = (\<lambda>g. g = 1), role_known = (\<lambda>g r. r = 5),
      member_known = (\<lambda>g u. True)\<rparr>
     [\<lparr>b_guild = 1, b_channel = 2, b_message = 3, b_emoji = ''x'', b_role = 5\<rparr>]
     \<lparr>p_user = 99, p_guild = Some 1, p_message = 3, p_emoji = ''x''\<rparr> = RemoveRoles 1 99 5"
proof -
  let ?env = "\<lparr>bot_user = 99, guild_known = (\<lambda>g. g = 1), role_known = (\<lambda>g r. r = 5),
      member_known = (\<lambda>g u. True)\<rparr>"
  let ?row = "\<lparr>b_guild = 1, b_channel = 2, b_message = 3, b_emoji = ''x'', b_role = 5\<rparr>"
  let ?p = "\<lparr>p_user = 99, p_guild = Some 1, p_message = 3, p_emoji = ''x''\<rparr>"
  have 1: "p_user ?p = bot_user ?env" by simp
  have 2: "p_guild ?p = Some 1" by simp
  have 3: "find_binding [?row] ?p = Some ?row" by (simp add: find_binding_def)
  have 4: "guild_known ?env 1" by simp
  have 5: "member_known ?env 1 (bot_user ?env)" by simp
  have 6: "role_known ?env 1 (b_role ?row)" by simp
  from reaction_remove_no_self_filter [OF 1 2 3 4 5 6] show ?thesis by simp
qed

subsection \<open>The reminder scheduler\<close>

lemma deliver_table:
  "fst (deliver env rs tbl) = filter (\<lambda>x. rid x \<notin> rid ` {r \<in> set rs. removes env r}) tbl"
proof (induction rs arbitrary: tbl)
  case Nil
  show ?case by simp
next
  case (Cons r rs)
  show ?case
  proof (cases "removes env r")
    case True
    then have "fst (deliver env (r # rs) tbl) = fst (deliver env rs (delete_reminder tbl (rid r)))"
      by (auto simp: removes_def case_prod_unfold)
    also have "\<dots> = filter (\<lambda>x. rid x \<notin> rid ` {r \<in> set rs. removes env r}) (delete_reminder tbl (rid r))"
      by (rule Cons.IH)
    also have "\<dots> = filter (\<lambda>x. rid x \<notin> rid ` {r' \<in> set (r # rs). removes env r'}) tbl"
      using True by (auto simp: delete_reminder_def intro!: filter_cong)
    finally show ?thesis .
  next
    case False
    then have "fst (deliver env (r # rs) tbl) = fst (deliver env rs tbl)"
      by (auto simp: removes_def case_prod_unfold)
    also have "\<dots> = filter (\<lambda>x. rid x \<notin> rid ` {r \<in> set rs. removes env r}) tbl"
      by (rule Cons.IH)
    also have "\<dots> = filter (\<lambda>x. rid x \<notin> rid ` {r' \<in> set (r # rs). removes env r'}) tbl"
      using False by (auto intro!: filter_cong)
    finally show ?thesis .
  qed
qed

lemma deliver_log:
  "snd (deliver env rs tbl) =
     map (\<lambda>r. if send_ok env r then Delivered r else SendFailed r)
       (filter (\<lambda>r. chan_ok env (r_channel r)) rs)"
  by (induction rs arbitrary: tbl) (simp_all add: case_prod_unfold)

text \<open>
  Claim C1 (amended). On a table whose ids are distinct, one cycle of the scheduler
  removes exactly the due rows (\<open>remind_at \<le> now\<close>) whose channel does not resolve
  (no send is attempted) or whose send returns; a due row whose send raises stays in
  the table, as does every row that is not due. The sends attempted are those of the
  due rows with a resolving channel, in table order.
\<close>

theorem reminders_cycle_deletes:
  assumes "distinct (map rid tbl)"
  shows "fst (reminders_cycle env now tbl) =
           filter (\<lambda>r. \<not> (remind_at r \<le> now \<and> (\<not> chan_ok env (r_channel r) \<or> send_ok env r))) tbl \<and>
         snd (reminders_cycle env now tbl) =
           map (\<lambda>r. if send_ok env r then Delivered r else SendFailed r)
             (filter (\<lambda>r. remind_at r \<le> now \<and> chan_ok env (r_channel r)) tbl)"
proof -
  from assms have inj: "inj_on rid (set tbl)" by (simp add: distinct_map)
  have "fst (reminders_cycle env now tbl) =
      filter (\<lambda>x. rid x \<notin> rid ` {r \<in> set (filter (\<lambda>r. remind_at r \<le> now) tbl). removes env r}) tbl"
    by (simp only: reminders_cycle_def deliver_table)
  also have "\<dots> = filter (\<lambda>r. \<not> (remind_at r \<le> now \<and> (\<not> chan_ok env (r_channel r) \<or> send_ok env r))) tbl"
  proof (rule filter_cong [OF refl])
    fix x assume x: "x \<in> set tbl"
    have "rid x \<in> rid ` {r \<in> set (filter (\<lambda>r. remind_at r \<le> now) tbl). removes env r}
        \<longleftrightarrow> x \<in> {r \<in> set (filter (\<lambda>r. remind_at r \<le> now) tbl). removes env r}"
      using inj x by (auto dest: inj_onD)
    then show "(rid x \<notin> rid ` {r \<in> set (filter (\<lambda>r. remind_at r \<le> now) tbl). removes env r})
        = (\<not> (remind_at x \<le> now \<and> (\<not> chan_ok env (r_channel x) \<or> send_ok env x)))"
      using x by (simp add: removes_def)
  qed
  finally have tab: "fst (reminders_cycle env now tbl) =
      filter (\<lambda>r. \<not> (remind_at r \<le> now \<and> (\<not> chan_ok env (r_channel r) \<or> send_ok env r))) tbl" .
  have log: "snd (reminders_cycle env now tbl) =
           map (\<lambda>r. if send_ok env r then Delivered r else SendFailed r)
             (filter (\<lambda>r. remind_at r \<le> now \<and> chan_ok env (r_channel r)) tbl)"
    by (simp add: reminders_cycle_def deliver_log conj_commute)
  from tab log show ?thesis by (rule conjI)
qed

theorem reminders_cycle_deletes_witness:
  "distinct (map rid [due_row, late_row]) \<and>
   reminders_cycle working_env 10 [due_row, late_row] = ([late_row], [Delivered due_row]) \<and>
   reminders_cycle failing_env 10 [due_row, late_row] = ([due_row, late_row], [SendFailed due_row])"
proof -
  have d: "distinct (map rid [due_row, late_row])"
    by (simp add: due_row_def late_row_def)
  have "reminders_cycle working_env 10 [due_row, late_row] = ([late_row], [Delivered due_row])"
    using reminders_cycle_deletes [OF d, of working_env 10]
    by (simp add: prod_eq_iff working_env_def due_row_def late_row_def)
  moreover have "reminders_cycle failing_env 10 [due_row, late_row] = ([due_row, late_row], [SendFailed due_row])"
    using reminders_cycle_deletes [OF d, of failing_env 10]
    by (simp add: prod_eq_iff failing_env_def due_row_def late_row_def)
  ultimately show ?thesis using d by simp
qed

text \<open>
  Claim C1 as stated fails: a due reminder whose send raises is still in the table
  after the cycle; in this run the next cycle, where the send returns, delivers it.
\<close>

theorem reminders_send_failure_keeps_row:
  "remind_at due_row \<le> 10 \<and>
   fst (reminders_cycle failing_env 10 [due_row]) = [due_row] \<and>
   reminders_worker [(10, failing_env), (20, working_env)] [due_row] =
     ([], [SendFailed due_row, Delivered due_row])"
  by (simp add: reminders_cycle_def failing_env_def working_env_def due_row_def
      delete_reminder_def)

subsection \<open>Reminder time parsing\<close>

lemmas parse_eval = parse_when_def py_int_def parse_unsigned_def int_strip_def is_int_space_def
  digit_val_def unit_mult_def Let_def

lemmas spec_eval = spec_offset_def spec_integer_def spec_unit_seconds_def is_digit_def
  decimal_value_def digit_val_def

lemma is_digit_val: "is_digit c \<Longrightarrow> \<exists>v. digit_val c = Some v"
  by (auto simp: is_digit_def digit_val_def)

lemma digit_val_is_digit: "digit_val c = Some v \<Longrightarrow> is_digit c"
  by (auto simp: is_digit_def digit_val_def split: if_splits)

lemma is_digit_plain:
  "is_digit c \<Longrightarrow>
     c \<noteq> CHR ''_'' \<and> c \<noteq> CHR ''-'' \<and> c \<noteq> CHR ''+'' \<and> \<not> is_int_space c"
  by (auto simp: is_digit_def is_int_space_def)

lemma parse_digits_all_digits:
  "list_all is_digit ds \<Longrightarrow>
   parse_digits ds acc =
     Inr (foldl (\<lambda>a c. 10 * a + (case digit_val c of None \<Rightarrow> 0 | Some v \<Rightarrow> v)) acc ds)"
proof (induction ds arbitrary: acc)
  case Nil
  show ?case by simp
next
  case (Cons c ds)
  from Cons.prems have c: "is_digit c" and ds: "list_all is_digit ds" by simp_all
  from c obtain v where v: "digit_val c = Some v" by (auto dest: is_digit_val)
  from c have "c \<noteq> CHR ''_''" by (simp add: is_digit_plain)
  with v Cons.IH [OF ds] show ?case by simp
qed

lemma parse_unsigned_all_digits:
  assumes "ds \<noteq> []" and "list_all is_digit ds"
  shows "parse_unsigned ds = Inr (decimal_value ds)"
proof -
  from assms obtain c cs where ds: "ds = c # cs" by (cases ds) auto
  with assms have c: "is_digit c" and cs: "list_all is_digit cs" by simp_all
  from c obtain v where v: "digit_val c = Some v" by (auto dest: is_digit_val)
  show ?thesis
    by (simp add: ds parse_unsigned_def v decimal_value_def parse_digits_all_digits [OF cs])
qed

lemma int_strip_plain:
  assumes "s \<noteq> []" and "\<not> is_int_space (hd s)" and "\<not> is_int_space (last s)"
  shows "int_strip s = s"
proof -
  from assms(1,2) have "dropWhile is_int_space s = s" by (cases s) auto
  moreover from assms(1,3) have "dropWhile is_int_space (rev s) = rev s"
    by (cases "rev s") (auto simp: hd_rev [symmetric] simp del: hd_rev)
  ultimately show ?thesis by (simp add: int_strip_def)
qed

lemma py_int_spec_integer:
  assumes "spec_integer s = Some n"
  shows "py_int s = Inr n"
proof -
  from assms obtain c cs where s: "s = c # cs" by (cases s) (auto simp: spec_integer_def)
  consider
    (neg) "c = CHR ''-''" "cs \<noteq> []" "list_all is_digit cs" "n = - decimal_value cs"
  | (pos) "c = CHR ''+''" "cs \<noteq> []" "list_all is_digit cs" "n = decimal_value cs"
  | (dig) "list_all is_digit (c # cs)" "n = decimal_value (c # cs)"
    using assms unfolding s spec_integer_def by (auto split: if_splits)
  then show ?thesis
  proof cases
    case neg
    have "\<not> is_int_space (last cs)"
      using neg(2,3) by (simp add: list_all_iff is_digit_plain)
    then have "int_strip s = s"
      using neg(1,2) by (intro int_strip_plain) (simp_all add: s is_int_space_def)
    then show ?thesis
      using neg by (simp add: py_int_def s parse_unsigned_all_digits)
  next
    case pos
    have "\<not> is_int_space (last cs)"
      using pos(2,3) by (simp add: list_all_iff is_digit_plain)
    then have "int_strip s = s"
      using pos(1,2) by (intro int_strip_plain) (simp_all add: s is_int_space_def)
    then show ?thesis
      using pos by (simp add: py_int_def s parse_unsigned_all_digits)
  next
    case dig
    then have c: "is_digit c" and l: "is_digit (last (c # cs))"
      by (simp_all add: list_all_iff)
    have "int_strip s = s"
      unfolding s using c l by (intro int_strip_plain) (simp_all add: is_digit_plain)
    then show ?thesis
      using dig c by (simp add: py_int_def s parse_unsigned_all_digits is_digit_plain)
  qed
qed

lemma spec_unit_mult:
  "spec_unit_seconds u = Some k \<Longrightarrow> unit_mult u = Some k \<and> k \<noteq> 0"
  by (auto simp: spec_unit_seconds_def unit_mult_def split: if_splits)

lemma unit_mult_units: "unit_mult u = Some m \<Longrightarrow> u \<in> set ''smhd''"
  by (auto simp: unit_mult_def split: if_splits)

lemma parse_when_spec_offset:
  assumes "spec_offset when = Some k"
  shows "parse_when when = Inr k"
proof -
  from assms obtain n m where w: "when \<noteq> []"
    and n: "spec_integer (butlast when) = Some n"
    and m: "spec_unit_seconds (last when) = Some m" and k: "k = n * m"
    by (auto simp: spec_offset_def split: if_splits option.splits)
  from n have "py_int (butlast when) = Inr n" by (rule py_int_spec_integer)
  moreover from m have "unit_mult (last when) = Some m \<and> m \<noteq> 0" by (rule spec_unit_mult)
  ultimately show ?thesis using w k by (simp add: parse_when_def)
qed

lemma parse_digits_chars:
  "parse_digits cs acc = Inr n \<Longrightarrow> \<forall>c\<in>set cs. is_digit c \<or> c = CHR ''_''"
proof (induction cs acc rule: parse_digits.induct)
  case (1 acc)
  show ?case by simp
next
  case (2 c cs acc)
  show ?case
  proof (cases "c = CHR ''_''")
    case True
    with "2.prems" obtain d ds v where cs: "cs = d # ds" and v: "digit_val d = Some v"
      and rest: "parse_digits ds (10 * acc + v) = Inr n"
      by (auto split: list.splits option.splits)
    from "2.IH"(1) [OF True cs v rest] have "\<forall>c\<in>set ds. is_digit c \<or> c = CHR ''_''" .
    with True cs v show ?thesis by (simp add: digit_val_is_digit)
  next
    case False
    with "2.prems" obtain v where v: "digit_val c = Some v"
      and rest: "parse_digits cs (10 * acc + v) = Inr n"
      by (auto split: option.splits)
    from "2.IH"(2) [OF False v rest] have "\<forall>c\<in>set cs. is_digit c \<or> c = CHR ''_''" .
    with v show ?thesis by (simp add: digit_val_is_digit)
  qed
qed

lemma parse_unsigned_chars:
  assumes "parse_unsigned s = Inr n"
  shows "(\<forall>c\<in>set s. is_digit c \<or> c = CHR ''_'') \<and> (\<exists>c\<in>set s. is_digit c)"
proof -
  from assms obtain c cs v where s: "s = c # cs" and v: "digit_val c = Some v"
    and rest: "parse_digits cs v = Inr n"
    by (auto simp: parse_unsigned_def split: list.splits option.splits)
  from rest have "\<forall>c\<in>set cs. is_digit c \<or> c = CHR ''_''" by (rule parse_digits_chars)
  with v show ?thesis by (auto simp: s digit_val_is_digit)
qed

lemma dropWhile_keeps: "x \<in> set xs \<Longrightarrow> x \<in> set (dropWhile P xs) \<or> P x"
  by (induction xs) auto

lemma set_int_strip:
  "set (int_strip s) = set (dropWhile is_int_space (rev (dropWhile is_int_space s)))"
  by (simp add: int_strip_def)

lemma int_strip_chars:
  assumes "x \<in> set s"
  shows "x \<in> set (int_strip s) \<or> is_int_space x"
proof (cases "is_int_space x")
  case True
  then show ?thesis by simp
next
  case False
  with assms dropWhile_keeps [of x s is_int_space]
  have "x \<in> set (dropWhile is_int_space s)" by blast
  then have "x \<in> set (rev (dropWhile is_int_space s))" by simp
  with False dropWhile_keeps [of x "rev (dropWhile is_int_space s)" is_int_space]
  have "x \<in> set (dropWhile is_int_space (rev (dropWhile is_int_space s)))" by blast
  then show ?thesis by (simp only: set_int_strip) simp
qed

lemma int_strip_subset:
  assumes "x \<in> set (int_strip s)"
  shows "x \<in> set s"
proof -
  from assms have "x \<in> set (dropWhile is_int_space (rev (dropWhile is_int_space s)))"
    by (simp only: set_int_strip)
  then have "x \<in> set (rev (dropWhile is_int_space s))" by (rule set_dropWhileD)
  then have "x \<in> set (dropWhile is_int_space s)" by simp
  then show ?thesis by (rule set_dropWhileD)
qed

lemma py_int_chars:
  assumes "py_int s = Inr n"
  shows "list_all int_char s \<and> list_ex is_digit s"
proof -
  from assms obtain c cs where t: "int_strip s = c # cs"
    by (auto simp: py_int_def split: list.splits)
  have body: "(\<forall>x\<in>set (int_strip s). int_char x) \<and> (\<exists>x\<in>set (int_strip s). is_digit x)"
  proof (cases "c = CHR ''-'' \<or> c = CHR ''+''")
    case True
    with assms t obtain k where "parse_unsigned cs = Inr k"
      by (cases "parse_unsigned cs") (auto simp: py_int_def)
    from parse_unsigned_chars [OF this] True show ?thesis
      by (auto simp: t int_char_def)
  next
    case False
    with assms t have "parse_unsigned (c # cs) = Inr n" by (simp add: py_int_def)
    from parse_unsigned_chars [OF this] show ?thesis
      unfolding t by (auto simp: int_char_def)
  qed
  have "\<forall>x\<in>set s. int_char x"
  proof
    fix x assume "x \<in> set s"
    then have "x \<in> set (int_strip s) \<or> is_int_space x" by (rule int_strip_chars)
    with body show "int_char x" by (auto simp: int_char_def)
  qed
  moreover from body have "\<exists>x\<in>set s. is_digit x" by (blast intro: int_strip_subset)
  ultimately show ?thesis by (simp add: list_all_iff list_ex_iff)
qed


lemma unit_mult_spec: "unit_mult u = Some m \<Longrightarrow> spec_unit_seconds u = Some m"
  by (auto simp: spec_unit_seconds_def unit_mult_def split: if_splits)

lemma parse_when_accepts:
  assumes "parse_when when = Inr k"
  shows "when \<noteq> [] \<and> last when \<in> set ''smhd'' \<and>
         (\<exists>n m. py_int (butlast when) = Inr n \<and> spec_unit_seconds (last when) = Some m \<and>
                k = n * m) \<and>
         list_all int_char (butlast when) \<and> list_ex is_digit (butlast when)"
proof -
  from assms have w: "when \<noteq> []" by (auto simp: parse_when_def split: if_splits)
  with assms obtain n m where n: "py_int (butlast when) = Inr n"
    and m: "unit_mult (last when) = Some m" and k: "k = n * m"
    by (auto simp: parse_when_def Let_def split: sum.splits option.splits if_splits)
  from n have "list_all int_char (butlast when) \<and> list_ex is_digit (butlast when)"
    by (rule py_int_chars)
  moreover from m have "last when \<in> set ''smhd''" by (rule unit_mult_units)
  moreover from m have "spec_unit_seconds (last when) = Some m" by (rule unit_mult_spec)
  ultimately show ?thesis using w n k by blast
qed

text \<open>
  Claim C6 (amended). \<open>cmd_remindme\<close> takes the last character of \<open>when\<close> as the unit
  and reads everything before it with \<open>int()\<close>. Every optionally signed decimal
  integer immediately followed by one of s, m, h, d is accepted with the offset amount
  times 1, 60, 3600, 86400. Whatever is accepted ends in one of s, m, h, d, and what
  precedes the unit is read by \<open>int()\<close> as the amount, contains a digit and consists
  of digits, underscores, signs and the whitespace of \<open>int()\<close> only. For an accepted
  input the reminder is scheduled and confirmed, unless one of the integers bound by
  the \<open>INSERT\<close> (the reminder time among them) does not fit 64 bits: then the command
  ends in \<open>OverflowError\<close>. Everything else is answered with the invalid-format
  message and the reminders table is left as it is.
\<close>

theorem parse_when_format:
  "(spec_offset when = Some k \<longrightarrow> parse_when when = Inr k) \<and>
   (parse_when when = Inr k \<longrightarrow>
      when \<noteq> [] \<and> last when \<in> set ''smhd'' \<and>
      (\<exists>n m. py_int (butlast when) = Inr n \<and> spec_unit_seconds (last when) = Some m \<and>
             k = n * m) \<and>
      list_all int_char (butlast when) \<and> list_ex is_digit (butlast when) \<and>
      snd (cmd_remindme tbl author guild channel when content now clock)
        = (if int64 author \<and> (case guild of None \<Rightarrow> True | Some g \<Rightarrow> int64 g) \<and>
              int64 channel \<and> int64 (now + k) \<and> int64 clock
           then Inr (ReminderSet (now + k)) else Inl OverflowError)) \<and>
   (parse_when when = Inl e \<longrightarrow>
      cmd_remindme tbl author guild channel when content now clock
        = (tbl, Inr InvalidTimeFormat))"
proof (intro conjI impI)
  assume "spec_offset when = Some k"
  then show "parse_when when = Inr k" by (rule parse_when_spec_offset)
next
  assume acc: "parse_when when = Inr k"
  note parts = parse_when_accepts [OF acc]
  from parts show "when \<noteq> []" by blast
  from parts show "last when \<in> set ''smhd''" by blast
  from parts show "\<exists>n m. py_int (butlast when) = Inr n \<and>
      spec_unit_seconds (last when) = Some m \<and> k = n * m" by blast
  from parts show "list_all int_char (butlast when)" by blast
  from parts show "list_ex is_digit (butlast when)" by blast
  from acc show "snd (cmd_remindme tbl author guild channel when content now clock)
        = (if int64 author \<and> (case guild of None \<Rightarrow> True | Some g \<Rightarrow> int64 g) \<and>
              int64 channel \<and> int64 (now + k) \<and> int64 clock
           then Inr (ReminderSet (now + k)) else Inl OverflowError)"
    by (simp add: cmd_remindme_def schedule_reminder_def Let_def)
next
  assume "parse_when when = Inl e"
  then show "cmd_remindme tbl author guild channel when content now clock
        = (tbl, Inr InvalidTimeFormat)"
    by (simp add: cmd_remindme_def)
qed

lemmas remind_eval = cmd_remindme_def schedule_reminder_def empty_tbl_def int64_def

theorem parse_when_format_witness:
  "spec_offset ''10m'' = Some 600 \<and> parse_when ''10m'' = Inr 600 \<and>
   parse_when ''2h'' = Inr 7200 \<and> parse_when ''1d'' = Inr 86400 \<and>
   parse_when ''45s'' = Inr 45 \<and>
   parse_when ''10x'' = Inl ValueError \<and> parse_when ''m10'' = Inl ValueError \<and>
   parse_when ''10'' = Inl ValueError \<and>
   parse_when (CHR 0x1C # ''10m'') = Inl ValueError \<and>
   parse_when (CHR 0xA0 # ''10m'') = Inr 600 \<and>
   cmd_remindme empty_tbl 7 None 3 ''10x'' ''tea'' 1000 1000 = (empty_tbl, Inr InvalidTimeFormat) \<and>
   cmd_remindme empty_tbl 7 None 3 ''m10'' ''tea'' 1000 1000 = (empty_tbl, Inr InvalidTimeFormat) \<and>
   snd (cmd_remindme empty_tbl 7 None 3 ''10m'' ''tea'' 1000 1000) = Inr (ReminderSet 1600)"
proof -
  have s: "spec_offset ''10m'' = Some 600" by (simp add: spec_eval)
  have x: "parse_when ''10x'' = Inl ValueError" and m: "parse_when ''m10'' = Inl ValueError"
    by (simp_all add: parse_eval)
  note a = parse_when_format [of "''10m''" 600 empty_tbl 7 None 3 "''tea''" 1000 1000]
  note b = parse_when_format [of "''10x''" _ empty_tbl 7 None 3 "''tea''" 1000 1000 ValueError]
  note c = parse_when_format [of "''m10''" _ empty_tbl 7 None 3 "''tea''" 1000 1000 ValueError]
  from a s have 1: "parse_when ''10m'' = Inr 600" by blast
  with a have 2: "snd (cmd_remindme empty_tbl 7 None 3 ''10m'' ''tea'' 1000 1000) = Inr (ReminderSet 1600)"
    by (simp add: int64_def)
  from b x have 3: "cmd_remindme empty_tbl 7 None 3 ''10x'' ''tea'' 1000 1000 = (empty_tbl, Inr InvalidTimeFormat)"
    by blast
  from c m have 4: "cmd_remindme empty_tbl 7 None 3 ''m10'' ''tea'' 1000 1000 = (empty_tbl, Inr InvalidTimeFormat)"
    by blast
  have 5: "parse_when ''2h'' = Inr 7200" "parse_when ''1d'' = Inr 86400"
    "parse_when ''45s'' = Inr 45" "parse_when ''10'' = Inl ValueError"
    "parse_when (CHR 0x1C # ''10m'') = Inl ValueError"
    "parse_when (CHR 0xA0 # ''10m'') = Inr 600"
    by (simp_all add: parse_eval)
  from s 1 2 3 4 5 x m show ?thesis by simp
qed

text \<open>
  Claim C6 as stated fails: \<open>1_0m\<close> and \<open>10 m\<close> are not an integer immediately followed
  by a unit character, and both are accepted, with an offset of 600 seconds.
\<close>

theorem parse_when_accepts_more:
  "spec_offset ''1_0m'' = None \<and> parse_when ''1_0m'' = Inr 600 \<and>
   spec_offset ''10 m'' = None \<and> parse_when ''10 m'' = Inr 600 \<and>
   r_rows (fst (cmd_remindme empty_tbl 7 None 3 ''1_0m'' ''tea'' 1000 1000)) =
     [\<lparr>rid = 1, r_user = 7, r_guild = None, r_channel = 3, remind_at = 1600,
       r_content = ''tea'', created_at = 1000\<rparr>]"
proof -
  have "parse_when ''1_0m'' = Inr 600" "parse_when ''10 m'' = Inr 600"
    by (simp_all add: parse_eval)
  moreover have "spec_offset ''1_0m'' = None" "spec_offset ''10 m'' = None"
    by (simp_all add: spec_eval)
  ultimately show ?thesis
    by (simp add: remind_eval)
qed

text \<open>
  Claim C7 (amended). For every input the parser accepts, with offset \<open>seconds\<close>:
  when the integers bound by the \<open>INSERT\<close> fit 64 bits, \<open>cmd_remindme\<close> appends one
  row with \<open>remind_at = now + seconds\<close> and \<open>created_at = clock\<close>, the clock reading
  taken at the insertion, so that \<open>remind_at > created_at\<close> holds exactly when the
  offset is larger than the time between the two readings (with both readings in the
  same second, exactly when the offset is positive); when they do not fit, the command
  ends in \<open>OverflowError\<close> and inserts nothing.
\<close>

theorem remindme_row_times:
  assumes "parse_when when = Inr seconds"
  shows "if int64 author \<and> (case guild of None \<Rightarrow> True | Some g \<Rightarrow> int64 g) \<and>
            int64 channel \<and> int64 (now + seconds) \<and> int64 clock
         then
           (\<exists>row. cmd_remindme tbl author guild channel when content now clock =
              (tbl\<lparr>r_rows := r_rows tbl @ [row], last_rid := last_rid tbl + 1\<rparr>,
               Inr (ReminderSet (now + seconds))) \<and>
            remind_at row = now + seconds \<and> created_at row = clock \<and>
            (created_at row < remind_at row \<longleftrightarrow> clock - now < seconds) \<and>
            (clock = now \<longrightarrow> (created_at row < remind_at row \<longleftrightarrow> 0 < seconds)))
         else cmd_remindme tbl author guild channel when content now clock
                = (tbl, Inl OverflowError)"
  using assms by (auto simp: cmd_remindme_def schedule_reminder_def Let_def)

theorem remindme_row_times_witness:
  "parse_when ''10m'' = Inr 600 \<and>
   cmd_remindme empty_tbl 7 None 3 ''10m'' ''tea'' 1000 1001 =
     (\<lparr>r_rows = [\<lparr>rid = 1, r_user = 7, r_guild = None, r_channel = 3, remind_at = 1600,
                   r_content = ''tea'', created_at = 1001\<rparr>], last_rid = 1\<rparr>,
      Inr (ReminderSet 1600)) \<and>
   parse_when ''9999999999999999999s'' = Inr 9999999999999999999 \<and>
   cmd_remindme empty_tbl 7 None 3 ''9999999999999999999s'' ''tea'' 1000 1001 =
     (empty_tbl, Inl OverflowError)"
proof -
  have p: "parse_when ''10m'' = Inr 600" by (simp add: parse_eval)
  have q: "parse_when ''9999999999999999999s'' = Inr 9999999999999999999"
    by (simp add: parse_eval)
  from remindme_row_times [OF p, of 7 None 3 1000 1001 empty_tbl "''tea''"]
  have 1: "cmd_remindme empty_tbl 7 None 3 ''10m'' ''tea'' 1000 1001 =
     (\<lparr>r_rows = [\<lparr>rid = 1, r_user = 7, r_guild = None, r_channel = 3, remind_at = 1600,
                   r_content = ''tea'', created_at = 1001\<rparr>], last_rid = 1\<rparr>,
      Inr (ReminderSet 1600))"
    by (simp add: remind_eval p)
  from remindme_row_times [OF q, of 7 None 3 1000 1001 empty_tbl "''tea''"]
  have 2: "cmd_remindme empty_tbl 7 None 3 ''9999999999999999999s'' ''tea'' 1000 1001 =
     (empty_tbl, Inl OverflowError)"
    by (simp add: int64_def)
  from p q 1 2 show ?thesis by simp
qed

text \<open>
  Claim C7 as stated fails: \<open>0s\<close> and \<open>-5m\<close> are accepted, and the rows inserted
  for them have \<open>remind_at = created_at\<close> and \<open>remind_at < created_at\<close>.
\<close>

theorem remindme_not_future:
  "parse_when ''0s'' = Inr 0 \<and>
   r_rows (fst (cmd_remindme empty_tbl 7 None 3 ''0s'' ''tea'' 1000 1000)) =
     [\<lparr>rid = 1, r_user = 7, r_guild = None, r_channel = 3, remind_at = 1000,
       r_content = ''tea'', created_at = 1000\<rparr>] \<and>
   parse_when ''-5m'' = Inr (- 300) \<and>
   r_rows (fst (cmd_remindme empty_tbl 7 None 3 ''-5m'' ''tea'' 1000 1000)) =
     [\<lparr>rid = 1, r_user = 7, r_guild = None, r_channel = 3, remind_at = 700,
       r_content = ''tea'', created_at = 1000\<rparr>]"
proof -
  have "parse_when ''0s'' = Inr 0" "parse_when ''-5m'' = Inr (- 300)"
    by (simp_all add: parse_eval)
  then show ?thesis
    by (simp add: remind_eval)
qed

subsection \<open>The message handler\<close>

lemma xp_step_shape:
  "\<exists>db evs. xp_step env m st = (st\<lparr>users_tbl := db\<rparr>, evs) \<and>
     (\<forall>e\<in>set evs. e = XpErrorLogged \<or> (\<exists>l. e = LevelUpSent (m_author m) l))"
  by (auto simp: xp_step_def split: prod.splits sum.splits option.splits)

lemma auto_react_shape:
  "auto_react cfg env m st = (st, []) \<or>
   (auto_react cfg env m st =
      (st\<lparr>last_react_time := (last_react_time st)((m_author m, m_channel m) \<mapsto> now_time env)\<rparr>,
       [ReactionsTried (m_author m) (m_channel m)]) \<and>
    real_of_int (AUTO_REACT_COOLDOWN cfg)
      \<le> now_time env - (case last_react_time st (m_author m, m_channel m) of None \<Rightarrow> 0 | Some t \<Rightarrow> t))"
  by (simp add: auto_react_def react_gate_def Let_def)

lemma auto_reply_shape:
  "auto_reply cfg env m st = (st, []) \<or>
   (auto_reply cfg env m st =
      (st\<lparr>last_reply_time := (last_reply_time st)((m_author m, m_channel m) \<mapsto> now_time env)\<rparr>,
       [AutoReplyTried (m_author m) (m_channel m)]) \<and>
    real_of_int (AUTO_REPLY_COOLDOWN cfg)
      \<le> now_time env - (case last_reply_time st (m_author m, m_channel m) of None \<Rightarrow> 0 | Some t \<Rightarrow> t))"
  by (simp add: auto_reply_def Let_def)

lemma trivia_step_none:
  "active_trivia st (m_channel m) = None \<Longrightarrow> trivia_step env m st = (st, [], False)"
  by (simp add: trivia_step_def trivia_check_def)

lemma trivia_step_some:
  "active_trivia st (m_channel m) = Some (answer, asker) \<Longrightarrow>
   trivia_step env m st =
     (if trivia_matches (m_content m) answer
      then if trivia_send_ok env
           then (st\<lparr>trivia_scores := (trivia_scores st)(m_author m \<mapsto> score_of st (m_author m) + 1),
                    active_trivia := (active_trivia st)(m_channel m := None)\<rparr>,
                 [TriviaCorrectSent (m_author m) (score_of st (m_author m) + 1), CommandsProcessed],
                 True)
           else (st\<lparr>trivia_scores := (trivia_scores st)(m_author m \<mapsto> score_of st (m_author m) + 1)\<rparr>,
                 [TriviaFailedLogged], False)
      else (st, [], False))"
  by (simp add: trivia_step_def trivia_check_def trivia_announced_def Let_def score_of_def)

lemma pool_answer_normal:
  "answer \<in> snd ` set TRIVIA_QUESTIONS \<Longrightarrow> lower (strip answer) = answer"
  by (auto simp: TRIVIA_QUESTIONS_def lower_def lower_char_def upper_letters_def
      lower_letters_def strip_def is_space_def)


lemma auto_tail:
  "\<exists>t1 t2 ev.
     (case auto_react cfg env m st of
        (st3, ev3) \<Rightarrow>
          (case auto_reply cfg env m st3 of
             (st4, ev4) \<Rightarrow> (st4, ev1 @ ev2 @ ev3 @ ev4 @ [CommandsProcessed])))
     = (st\<lparr>last_react_time := t1, last_reply_time := t2\<rparr>, ev1 @ ev2 @ ev @ [CommandsProcessed])"
proof -
  obtain st3 ev3 where r: "auto_react cfg env m st = (st3, ev3)" by (cases "auto_react cfg env m st")
  obtain st4 ev4 where p: "auto_reply cfg env m st3 = (st4, ev4)" by (cases "auto_reply cfg env m st3")
  from auto_react_shape [of cfg env m st] r
  have "\<exists>t1. st3 = st\<lparr>last_react_time := t1\<rparr>"
  proof (elim disjE conjE)
    assume "auto_react cfg env m st = (st, [])"
    with r have "st3 = st\<lparr>last_react_time := last_react_time st\<rparr>" by simp
    then show ?thesis by blast
  next
    assume "auto_react cfg env m st =
      (st\<lparr>last_react_time := (last_react_time st)((m_author m, m_channel m) \<mapsto> now_time env)\<rparr>,
       [ReactionsTried (m_author m) (m_channel m)])"
    with r show ?thesis by auto
  qed
  then obtain t1 where st3: "st3 = st\<lparr>last_react_time := t1\<rparr>" ..
  from auto_reply_shape [of cfg env m st3] p
  have "\<exists>t2. st4 = st3\<lparr>last_reply_time := t2\<rparr>"
  proof (elim disjE conjE)
    assume "auto_reply cfg env m st3 = (st3, [])"
    with p have "st4 = st3\<lparr>last_reply_time := last_reply_time st3\<rparr>" by simp
    then show ?thesis by blast
  next
    assume "auto_reply cfg env m st3 =
      (st3\<lparr>last_reply_time := (last_reply_time st3)((m_author m, m_channel m) \<mapsto> now_time env)\<rparr>,
       [AutoReplyTried (m_author m) (m_channel m)])"
    with p show ?thesis by auto
  qed
  then obtain t2 where st4: "st4 = st3\<lparr>last_reply_time := t2\<rparr>" ..
  show ?thesis
    by (rule exI [of _ t1], rule exI [of _ t2], rule exI [of _ "ev3 @ ev4"])
      (simp add: r [unfolded st3] p [unfolded st4 st3])
qed

lemma on_message_no_session:
  assumes "active_trivia st (m_channel m) = None"
  shows "trivia_scores (fst (on_message cfg env m st)) = trivia_scores st"
proof (cases "m_author_bot m")
  case True
  then show ?thesis by (simp add: on_message_def)
next
  case False
  obtain db ev1 where x: "xp_step env m st = (st\<lparr>users_tbl := db\<rparr>, ev1)"
    using xp_step_shape [of env m st] by blast
  from assms have t: "trivia_step env m (st\<lparr>users_tbl := db\<rparr>) = (st\<lparr>users_tbl := db\<rparr>, [], False)"
    by (simp add: trivia_step_none)
  obtain t1 t2 ev where
    "(case auto_react cfg env m (st\<lparr>users_tbl := db\<rparr>) of
        (st3, ev3) \<Rightarrow>
          (case auto_reply cfg env m st3 of
             (st4, ev4) \<Rightarrow> (st4, ev1 @ [] @ ev3 @ ev4 @ [CommandsProcessed])))
     = (st\<lparr>users_tbl := db, last_react_time := t1, last_reply_time := t2\<rparr>,
        ev1 @ [] @ ev @ [CommandsProcessed])"
    using auto_tail [where cfg = cfg and env = env and m = m and st = "st\<lparr>users_tbl := db\<rparr>"
        and ?ev1.0 = ev1 and ?ev2.0 = "[]"] by auto
  with False x t show ?thesis by (simp add: on_message_def)
qed


lemmas msg_eval = on_message_def xp_step_def trivia_step_def trivia_check_def
  trivia_announced_def trivia_matches_def auto_react_def
  auto_reply_def react_gate_def add_xp_row int_sqrt_small randint_def Let_def lower_def
  lower_char_def upper_letters_def lower_letters_def
  strip_def is_space_def quiet_cfg_def init_state_def paris_state_def paris_msg_def
  env_ok_def env_send_fails_def trivia_cmd_def TRIVIA_QUESTIONS_def score_of_def

lemma paris_session: "active_trivia paris_state 3 = Some (''paris'', 1)"
  by (simp add: msg_eval)

lemma paris_fail:
  "on_message quiet_cfg env_send_fails paris_msg paris_state =
     (paris_state\<lparr>users_tbl := [7 \<mapsto> \<lparr>coins = 0, xp = 1, level = 1, last_daily = 0\<rparr>],
                  trivia_scores := [7 \<mapsto> 1]\<rparr>,
      [LevelUpSent 7 1, TriviaFailedLogged, CommandsProcessed])"
  by (simp add: msg_eval)


lemma paris_ok:
  "on_message quiet_cfg env_ok paris_msg paris_state =
     (paris_state\<lparr>users_tbl := [7 \<mapsto> \<lparr>coins = 0, xp = 1, level = 1, last_daily = 0\<rparr>],
                  trivia_scores := [7 \<mapsto> 1], active_trivia := Map.empty\<rparr>,
      [LevelUpSent 7 1, TriviaCorrectSent 7 1, CommandsProcessed])"
  by (simp add: msg_eval)

lemma trivia_overlap_counts_twice:
  "trivia_overlap env_ok paris_msg env_ok paris_msg paris_state =
     (paris_state\<lparr>trivia_scores := [7 \<mapsto> 2], active_trivia := Map.empty\<rparr>,
      [TriviaCorrectSent 7 1, CommandsProcessed],
      [TriviaCorrectSent 7 2, TriviaFailedLogged])"
  by (simp add: trivia_overlap_def msg_eval)

text \<open>
  Claim C4, at the input where the code departs from it. Channel 3 has the session
  with the answer \<open>paris\<close>, user 7 has no score, and user 7 sends \<open> Paris\<close>, which
  matches. With the announcement raising, the handler leaves the score at 1 and the
  session in place, and the same message sent again, now announced, brings the score
  to 2: the first correct answer has not cleared the session, and the second message
  with the same text has added to the score.
\<close>

theorem trivia_send_failure_counts_twice:
  "score_of paris_state 7 = 0 \<and>
   trivia_matches (m_content paris_msg) ''paris'' \<and>
   score_of (fst (on_message quiet_cfg env_send_fails paris_msg paris_state)) 7 = 1 \<and>
   active_trivia (fst (on_message quiet_cfg env_send_fails paris_msg paris_state)) 3
     = Some (''paris'', 1) \<and>
   score_of (fst (on_messages quiet_cfg [(env_send_fails, paris_msg), (env_ok, paris_msg)]
                    paris_state)) 7 = 2"
  by (simp add: msg_eval)

subsection \<open>Cooldowns\<close>

lemma trivia_step_shape:
  "\<exists>sc tr ev stop. trivia_step env m st = (st\<lparr>trivia_scores := sc, active_trivia := tr\<rparr>, ev, stop) \<and>
     (\<forall>a c. ReactionsTried a c \<notin> set ev \<and> AutoReplyTried a c \<notin> set ev)"
proof (cases "active_trivia st (m_channel m)")
  case None
  then have "trivia_step env m st =
      (st\<lparr>trivia_scores := trivia_scores st, active_trivia := active_trivia st\<rparr>, [], False)"
    by (simp add: trivia_step_none)
  then show ?thesis by fastforce
next
  case (Some p)
  obtain answer asker where "p = (answer, asker)" by (cases p)
  with Some have s: "active_trivia st (m_channel m) = Some (answer, asker)" by simp
  consider (sent) "trivia_matches (m_content m) answer" "trivia_send_ok env"
    | (failed) "trivia_matches (m_content m) answer" "\<not> trivia_send_ok env"
    | (miss) "\<not> trivia_matches (m_content m) answer" by blast
  then show ?thesis
  proof cases
    case sent
    then have "trivia_step env m st =
      (st\<lparr>trivia_scores := (trivia_scores st)(m_author m \<mapsto> score_of st (m_author m) + 1),
          active_trivia := (active_trivia st)(m_channel m := None)\<rparr>,
       [TriviaCorrectSent (m_author m) (score_of st (m_author m) + 1), CommandsProcessed], True)"
      by (simp add: trivia_step_some [OF s])
    then show ?thesis by fastforce
  next
    case failed
    then have "trivia_step env m st =
      (st\<lparr>trivia_scores := (trivia_scores st)(m_author m \<mapsto> score_of st (m_author m) + 1),
          active_trivia := active_trivia st\<rparr>,
       [TriviaFailedLogged], False)"
      by (simp add: trivia_step_some [OF s])
    then show ?thesis by fastforce
  next
    case miss
    then have "trivia_step env m st =
      (st\<lparr>trivia_scores := trivia_scores st, active_trivia := active_trivia st\<rparr>, [], False)"
      by (simp add: trivia_step_some [OF s])
    then show ?thesis by fastforce
  qed
qed

lemma xp_step_quiet:
  "\<exists>db evs. xp_step env m st = (st\<lparr>users_tbl := db\<rparr>, evs) \<and>
     (\<forall>a c. ReactionsTried a c \<notin> set evs \<and> AutoReplyTried a c \<notin> set evs)"
  using xp_step_shape [of env m st] by fastforce


lemma on_message_gates:
  "\<exists>st' evs. on_message cfg env m st = (st', evs) \<and>
     ((last_react_time st' = last_react_time st \<and> (\<forall>a c. ReactionsTried a c \<notin> set evs)) \<or>
      (last_react_time st' = (last_react_time st)((m_author m, m_channel m) \<mapsto> now_time env) \<and>
       (\<forall>a c. ReactionsTried a c \<in> set evs \<longleftrightarrow> a = m_author m \<and> c = m_channel m) \<and>
       real_of_int (AUTO_REACT_COOLDOWN cfg)
         \<le> now_time env - react_last st (m_author m, m_channel m))) \<and>
     ((last_reply_time st' = last_reply_time st \<and> (\<forall>a c. AutoReplyTried a c \<notin> set evs)) \<or>
      (last_reply_time st' = (last_reply_time st)((m_author m, m_channel m) \<mapsto> now_time env) \<and>
       (\<forall>a c. AutoReplyTried a c \<in> set evs \<longleftrightarrow> a = m_author m \<and> c = m_channel m) \<and>
       real_of_int (AUTO_REPLY_COOLDOWN cfg)
         \<le> now_time env - reply_last st (m_author m, m_channel m)))"
proof (cases "m_author_bot m")
  case True
  then show ?thesis by (simp add: on_message_def)
next
  case False
  obtain db ev1 where x: "xp_step env m st = (st\<lparr>users_tbl := db\<rparr>, ev1)"
    and q1: "\<forall>a c. ReactionsTried a c \<notin> set ev1 \<and> AutoReplyTried a c \<notin> set ev1"
    using xp_step_quiet [of env m st] by blast
  define st1 where "st1 = st\<lparr>users_tbl := db\<rparr>"
  obtain sc tr ev2 stop where
    t: "trivia_step env m st1 = (st1\<lparr>trivia_scores := sc, active_trivia := tr\<rparr>, ev2, stop)"
    and q2: "\<forall>a c. ReactionsTried a c \<notin> set ev2 \<and> AutoReplyTried a c \<notin> set ev2"
    using trivia_step_shape [of env m st1] by blast
  define st2 where "st2 = st1\<lparr>trivia_scores := sc, active_trivia := tr\<rparr>"
  have f2: "last_react_time st2 = last_react_time st" "last_reply_time st2 = last_reply_time st"
    by (simp_all add: st2_def st1_def)
  show ?thesis
  proof (cases stop)
    case True
    with False x t have "on_message cfg env m st = (st2, ev1 @ ev2)"
      by (simp add: on_message_def st1_def st2_def)
    with q1 q2 f2 show ?thesis by simp
  next
    case nostop: False
    obtain st3 ev3 where r: "auto_react cfg env m st2 = (st3, ev3)"
      by (cases "auto_react cfg env m st2")
    obtain st4 ev4 where p: "auto_reply cfg env m st3 = (st4, ev4)"
      by (cases "auto_reply cfg env m st3")
    have run: "on_message cfg env m st = (st4, ev1 @ ev2 @ ev3 @ ev4 @ [CommandsProcessed])"
      using False x t nostop r p by (simp add: on_message_def st1_def st2_def)
    have react: "(st3 = st2 \<and> ev3 = []) \<or>
        (st3 = st2\<lparr>last_react_time := (last_react_time st2)((m_author m, m_channel m) \<mapsto> now_time env)\<rparr> \<and>
         ev3 = [ReactionsTried (m_author m) (m_channel m)] \<and>
         real_of_int (AUTO_REACT_COOLDOWN cfg)
           \<le> now_time env - react_last st (m_author m, m_channel m))"
      using auto_react_shape [of cfg env m st2] r by (auto simp: react_last_def f2)
    have f3: "last_reply_time st3 = last_reply_time st"
      using react f2 by auto
    have reply: "(st4 = st3 \<and> ev4 = []) \<or>
        (st4 = st3\<lparr>last_reply_time := (last_reply_time st3)((m_author m, m_channel m) \<mapsto> now_time env)\<rparr> \<and>
         ev4 = [AutoReplyTried (m_author m) (m_channel m)] \<and>
         real_of_int (AUTO_REPLY_COOLDOWN cfg)
           \<le> now_time env - reply_last st (m_author m, m_channel m))"
      using auto_reply_shape [of cfg env m st3] p by (auto simp: reply_last_def f3)
    have a: "(last_react_time st4 = last_react_time st \<and>
          (\<forall>a c. ReactionsTried a c \<notin> set (ev1 @ ev2 @ ev3 @ ev4 @ [CommandsProcessed]))) \<or>
      (last_react_time st4 = (last_react_time st)((m_author m, m_channel m) \<mapsto> now_time env) \<and>
       (\<forall>a c. ReactionsTried a c \<in> set (ev1 @ ev2 @ ev3 @ ev4 @ [CommandsProcessed])
            \<longleftrightarrow> a = m_author m \<and> c = m_channel m) \<and>
       real_of_int (AUTO_REACT_COOLDOWN cfg)
         \<le> now_time env - react_last st (m_author m, m_channel m))"
      using react reply q1 q2 f2 by auto
    have b: "(last_reply_time st4 = last_reply_time st \<and>
          (\<forall>a c. AutoReplyTried a c \<notin> set (ev1 @ ev2 @ ev3 @ ev4 @ [CommandsProcessed]))) \<or>
      (last_reply_time st4 = (last_reply_time st)((m_author m, m_channel m) \<mapsto> now_time env) \<and>
       (\<forall>a c. AutoReplyTried a c \<in> set (ev1 @ ev2 @ ev3 @ ev4 @ [CommandsProcessed])
            \<longleftrightarrow> a = m_author m \<and> c = m_channel m) \<and>
       real_of_int (AUTO_REPLY_COOLDOWN cfg)
         \<le> now_time env - reply_last st (m_author m, m_channel m))"
      using react reply q1 q2 f3 by auto
    from run a b show ?thesis by simp
  qed
qed


lemma react_step:
  assumes "on_message cfg env m st = (st', evs)"
  shows "(ReactionsTried a c \<in> set evs \<longrightarrow>
            real_of_int (AUTO_REACT_COOLDOWN cfg) \<le> now_time env - react_last st (a, c) \<and>
            react_last st' (a, c) = now_time env) \<and>
         (ReactionsTried a c \<notin> set evs \<longrightarrow> react_last st' (a, c) = react_last st (a, c))"
  using on_message_gates [of cfg env m st] assms
  by (auto simp: react_last_def)

lemma reply_step:
  assumes "on_message cfg env m st = (st', evs)"
  shows "(AutoReplyTried a c \<in> set evs \<longrightarrow>
            real_of_int (AUTO_REPLY_COOLDOWN cfg) \<le> now_time env - reply_last st (a, c) \<and>
            reply_last st' (a, c) = now_time env) \<and>
         (AutoReplyTried a c \<notin> set evs \<longrightarrow> reply_last st' (a, c) = reply_last st (a, c))"
  using on_message_gates [of cfg env m st] assms
  by (auto simp: reply_last_def)

lemma gate_sequence:
  fixes L t :: "nat \<Rightarrow> real" and fired :: "nat \<Rightarrow> bool"
  assumes step: "\<And>k. k < n \<Longrightarrow>
        (fired k \<longrightarrow> C \<le> t k - L k \<and> L (Suc k) = t k) \<and> (\<not> fired k \<longrightarrow> L (Suc k) = L k)"
    and C: "0 \<le> C" and ij: "i < j" and jn: "j < n" and fi: "fired i" and fj: "fired j"
  shows "t i + C \<le> t j"
proof -
  have up: "L k \<le> L (Suc k)" if "k < n" for k
    using step [OF that] C by (cases "fired k") auto
  have mono: "L (Suc i) \<le> L (Suc i + d)" if "Suc i + d \<le> n" for d
    using that
  proof (induction d)
    case 0
    show ?case by simp
  next
    case (Suc d)
    then have "L (Suc i) \<le> L (Suc i + d)" by simp
    also have "\<dots> \<le> L (Suc (Suc i + d))" using Suc.prems by (intro up) simp
    finally show ?case by simp
  qed
  from ij jn have "i < n" by simp
  from step [OF this] fi have a: "L (Suc i) = t i" by simp
  from ij obtain d where d: "j = Suc i + d" by (auto simp: less_iff_Suc_add)
  with jn mono [of d] have "L (Suc i) \<le> L j" by simp
  moreover from step [OF jn] fj have "C \<le> t j - L j" by simp
  ultimately show ?thesis using a by simp
qed

lemma on_messages_step:
  assumes "k < length ms"
  shows "on_message cfg (fst (ms ! k)) (snd (ms ! k)) (fst (on_messages cfg (take k ms) st)) =
           (fst (on_messages cfg (take (Suc k) ms) st), snd (on_messages cfg ms st) ! k)"
  using assms
proof (induction ms arbitrary: k st)
  case Nil
  then show ?case by simp
next
  case (Cons em ms)
  obtain env m where em: "em = (env, m)" by (cases em)
  show ?case
  proof (cases k)
    case 0
    then show ?thesis by (simp add: em case_prod_unfold)
  next
    case (Suc k')
    with Cons.prems have "k' < length ms" by simp
    from Cons.IH [OF this, of "fst (on_message cfg env m st)"] Suc
    show ?thesis by (simp add: em case_prod_unfold)
  qed
qed


text \<open>
  Claim C8. In a run of \<open>on_message\<close> over any sequence of messages, from any state:
  a message for which the reactions (the reply) of author \<open>a\<close> in channel \<open>c\<close> are
  triggered is a message of \<open>a\<close> in \<open>c\<close>, and of two messages whose timestamps are
  less than \<open>AUTO_REACT_COOLDOWN\<close> (\<open>AUTO_REPLY_COOLDOWN\<close>) apart, at most one
  triggers the reactions (the reply) for \<open>a\<close> in \<open>c\<close>.
\<close>

theorem cooldown_triggers_once:
  assumes ij: "i < j" and jn: "j < length ms"
  shows "(\<forall>k<length ms.
            (ReactionsTried a c \<in> set (snd (on_messages cfg ms st) ! k) \<or>
             AutoReplyTried a c \<in> set (snd (on_messages cfg ms st) ! k)) \<longrightarrow>
            m_author (snd (ms ! k)) = a \<and> m_channel (snd (ms ! k)) = c) \<and>
         (\<bar>now_time (fst (ms ! j)) - now_time (fst (ms ! i))\<bar>
            < real_of_int (AUTO_REACT_COOLDOWN cfg) \<longrightarrow>
          \<not> (ReactionsTried a c \<in> set (snd (on_messages cfg ms st) ! i) \<and>
             ReactionsTried a c \<in> set (snd (on_messages cfg ms st) ! j))) \<and>
         (\<bar>now_time (fst (ms ! j)) - now_time (fst (ms ! i))\<bar>
            < real_of_int (AUTO_REPLY_COOLDOWN cfg) \<longrightarrow>
          \<not> (AutoReplyTried a c \<in> set (snd (on_messages cfg ms st) ! i) \<and>
             AutoReplyTried a c \<in> set (snd (on_messages cfg ms st) ! j)))"
proof (intro conjI allI impI notI)
  fix k
  assume k: "k < length ms"
    and ev: "ReactionsTried a c \<in> set (snd (on_messages cfg ms st) ! k) \<or>
             AutoReplyTried a c \<in> set (snd (on_messages cfg ms st) ! k)"
  from on_message_gates [of cfg "fst (ms ! k)" "snd (ms ! k)" "fst (on_messages cfg (take k ms) st)"]
    ev
  show "m_author (snd (ms ! k)) = a" and "m_channel (snd (ms ! k)) = c"
    unfolding on_messages_step [OF k] by auto
next
  let ?t = "\<lambda>k. now_time (fst (ms ! k))"
  let ?L = "\<lambda>k. react_last (fst (on_messages cfg (take k ms) st)) (a, c)"
  let ?fired = "\<lambda>k. ReactionsTried a c \<in> set (snd (on_messages cfg ms st) ! k)"
  assume near: "\<bar>?t j - ?t i\<bar> < real_of_int (AUTO_REACT_COOLDOWN cfg)"
    and both: "?fired i \<and> ?fired j"
  from near have pos: "0 \<le> real_of_int (AUTO_REACT_COOLDOWN cfg)" by linarith
  have step: "(?fired k \<longrightarrow> real_of_int (AUTO_REACT_COOLDOWN cfg) \<le> ?t k - ?L k \<and> ?L (Suc k) = ?t k) \<and>
      (\<not> ?fired k \<longrightarrow> ?L (Suc k) = ?L k)" if "k < length ms" for k
    by (rule react_step [OF on_messages_step [OF that]])
  from both have "?t i + real_of_int (AUTO_REACT_COOLDOWN cfg) \<le> ?t j"
    by (intro gate_sequence [where L = ?L and fired = ?fired and n = "length ms", OF step pos ij jn])
      simp_all
  with near show False by linarith
next
  let ?t = "\<lambda>k. now_time (fst (ms ! k))"
  let ?L = "\<lambda>k. reply_last (fst (on_messages cfg (take k ms) st)) (a, c)"
  let ?fired = "\<lambda>k. AutoReplyTried a c \<in> set (snd (on_messages cfg ms st) ! k)"
  assume near: "\<bar>?t j - ?t i\<bar> < real_of_int (AUTO_REPLY_COOLDOWN cfg)"
    and both: "?fired i \<and> ?fired j"
  from near have pos: "0 \<le> real_of_int (AUTO_REPLY_COOLDOWN cfg)" by linarith
  have step: "(?fired k \<longrightarrow> real_of_int (AUTO_REPLY_COOLDOWN cfg) \<le> ?t k - ?L k \<and> ?L (Suc k) = ?t k) \<and>
      (\<not> ?fired k \<longrightarrow> ?L (Suc k) = ?L k)" if "k < length ms" for k
    by (rule reply_step [OF on_messages_step [OF that]])
  from both have "?t i + real_of_int (AUTO_REPLY_COOLDOWN cfg) \<le> ?t j"
    by (intro gate_sequence [where L = ?L and fired = ?fired and n = "length ms", OF step pos ij jn])
      simp_all
  with near show False by linarith
qed

lemma tea_run:
  "snd (on_messages busy_cfg tea_chat init_state) =
     [[LevelUpSent 7 1, ReactionsTried 7 3, AutoReplyTried 7 3, CommandsProcessed],
      [CommandsProcessed],
      [ReactionsTried 7 3, CommandsProcessed]]"
proof -
  have sq: "isqrt 2 = 1" "isqrt 3 = 1" by code_simp+
  show ?thesis
    by (simp add: on_message_def xp_step_def trivia_step_def trivia_check_def auto_react_def
        auto_reply_def react_gate_def add_xp_row int_sqrt_small randint_def Let_def lower_def
        lower_char_def upper_letters_def lower_letters_def
        busy_cfg_def tea_msg_def tea_chat_def init_state_def env_ok_def sq)
qed

theorem cooldown_triggers_once_witness:
  "(0::nat) < 1 \<and> 1 < length tea_chat \<and>
   \<bar>now_time (fst (tea_chat ! 1)) - now_time (fst (tea_chat ! 0))\<bar>
     < real_of_int (AUTO_REACT_COOLDOWN busy_cfg) \<and>
   ReactionsTried 7 3 \<in> set (snd (on_messages busy_cfg tea_chat init_state) ! 0) \<and>
   ReactionsTried 7 3 \<notin> set (snd (on_messages busy_cfg tea_chat init_state) ! 1) \<and>
   AutoReplyTried 7 3 \<in> set (snd (on_messages busy_cfg tea_chat init_state) ! 0) \<and>
   AutoReplyTried 7 3 \<notin> set (snd (on_messages busy_cfg tea_chat init_state) ! 1) \<and>
   ReactionsTried 7 3 \<in> set (snd (on_messages busy_cfg tea_chat init_state) ! 2)"
proof -
  have ij: "(0::nat) < 1" by simp
  have jn: "1 < length tea_chat" by (simp add: tea_chat_def)
  have near: "\<bar>now_time (fst (tea_chat ! 1)) - now_time (fst (tea_chat ! 0))\<bar>
     < real_of_int (AUTO_REACT_COOLDOWN busy_cfg)"
    by (simp add: tea_chat_def env_ok_def busy_cfg_def)
  have near': "\<bar>now_time (fst (tea_chat ! 1)) - now_time (fst (tea_chat ! 0))\<bar>
     < real_of_int (AUTO_REPLY_COOLDOWN busy_cfg)"
    by (simp add: tea_chat_def env_ok_def busy_cfg_def)
  have first: "ReactionsTried 7 3 \<in> set (snd (on_messages busy_cfg tea_chat init_state) ! 0)"
    "AutoReplyTried 7 3 \<in> set (snd (on_messages busy_cfg tea_chat init_state) ! 0)"
    "ReactionsTried 7 3 \<in> set (snd (on_messages busy_cfg tea_chat init_state) ! 2)"
    by (simp_all add: tea_run)
  from cooldown_triggers_once [OF ij jn, of 7 3 busy_cfg init_state] near near' first
  have "ReactionsTried 7 3 \<notin> set (snd (on_messages busy_cfg tea_chat init_state) ! 1)"
    and "AutoReplyTried 7 3 \<notin> set (snd (on_messages busy_cfg tea_chat init_state) ! 1)"
    by blast+
  with ij jn near first show ?thesis by simp
qed

subsection \<open>The hypotheses hold in the states the program reaches\<close>

lemma users_inv_empty: "users_inv Map.empty"
  by (simp add: users_inv_def)

lemma users_inv_change_coins:
  "users_inv db \<Longrightarrow> users_inv (fst (change_coins db uid delta))"
  by (auto simp: change_coins_row users_inv_def level_ok_def Let_def split: option.splits)

lemma users_inv_cmd_give:
  assumes "users_inv db"
  shows "users_inv (fst (cmd_give db author member amount))"
proof (cases "0 < amount \<and> amount \<le> coins_of db author")
  case True
  then have "fst (cmd_give db author member amount) =
      fst (change_coins (fst (change_coins db author (- amount))) member amount)"
    by (simp add: cmd_give_accepts)
  with assms show ?thesis by (simp add: users_inv_change_coins)
next
  case False
  then have "fst (cmd_give db author member amount) = db"
    by (intro cmd_give_rejects) auto
  with assms show ?thesis by simp
qed

lemma users_inv_cmd_daily:
  "users_inv db \<Longrightarrow> users_inv (fst (cmd_daily db author now seed))"
  by (auto simp: cmd_daily_row users_inv_def level_ok_def Let_def split: option.splits)

lemma users_inv_on_message:
  assumes "users_inv (users_tbl st)"
  shows "users_inv (users_tbl (fst (on_message cfg env m st)))"
proof (cases "m_author_bot m")
  case True
  with assms show ?thesis by (simp add: on_message_def)
next
  case False
  have "1 \<le> randint 1 3 (xp_seed env)" using randint_range [of 1 3] by simp
  then have amt: "0 \<le> randint 1 3 (xp_seed env)" by simp
  have x: "users_tbl (fst (xp_step env m st)) =
      fst (add_xp (pow_trunc env) (users_tbl st) (m_author m) (randint 1 3 (xp_seed env)))"
    by (simp add: xp_step_def split: prod.splits sum.splits option.splits)
  obtain st' evs where run: "on_message cfg env m st = (st', evs)"
    by (cases "on_message cfg env m st")
  obtain db ev1 where xs: "xp_step env m st = (st\<lparr>users_tbl := db\<rparr>, ev1)"
    using xp_step_shape [of env m st] by blast
  obtain sc tr ev2 stop where
    t: "trivia_step env m (st\<lparr>users_tbl := db\<rparr>)
          = (st\<lparr>users_tbl := db, trivia_scores := sc, active_trivia := tr\<rparr>, ev2, stop)"
    using trivia_step_shape [of env m "st\<lparr>users_tbl := db\<rparr>"] by auto
  obtain t1 t2 ev where tail:
    "(case auto_react cfg env m (st\<lparr>users_tbl := db, trivia_scores := sc, active_trivia := tr\<rparr>) of
        (st3, ev3) \<Rightarrow>
          (case auto_reply cfg env m st3 of
             (st4, ev4) \<Rightarrow> (st4, ev1 @ ev2 @ ev3 @ ev4 @ [CommandsProcessed])))
     = (st\<lparr>users_tbl := db, trivia_scores := sc, active_trivia := tr,
           last_react_time := t1, last_reply_time := t2\<rparr>,
        ev1 @ ev2 @ ev @ [CommandsProcessed])"
    using auto_tail [where cfg = cfg and env = env and m = m
        and st = "st\<lparr>users_tbl := db, trivia_scores := sc, active_trivia := tr\<rparr>"
        and ?ev1.0 = ev1 and ?ev2.0 = ev2] by auto
  have "users_tbl (fst (on_message cfg env m st)) = db"
    using False xs t tail by (cases stop) (simp_all add: on_message_def)
  moreover from x xs have "db = fst (add_xp (pow_trunc env) (users_tbl st) (m_author m) (randint 1 3 (xp_seed env)))"
    by simp
  ultimately show ?thesis using add_xp_inv [OF assms amt] by simp
qed

lemma reminders_inv_empty: "reminders_inv empty_tbl"
  by (simp add: reminders_inv_def empty_tbl_def)

lemma reminders_inv_cmd_remindme:
  assumes "reminders_inv tbl"
  shows "reminders_inv (fst (cmd_remindme tbl author guild channel when content now clock))"
  using assms
  by (cases "parse_when when")
    (fastforce simp: cmd_remindme_def schedule_reminder_def reminders_inv_def Let_def)+

lemma reminders_inv_cycle:
  assumes "reminders_inv tbl"
  shows "reminders_inv (tbl\<lparr>r_rows := fst (reminders_cycle env now (r_rows tbl))\<rparr>)"
proof -
  obtain P where "fst (reminders_cycle env now (r_rows tbl)) = filter P (r_rows tbl)"
    by (simp add: reminders_cycle_def deliver_table)
  with assms show ?thesis
    by (simp add: reminders_inv_def distinct_map_filter)
qed

lemma sessions_inv_init: "sessions_inv init_state"
  by (simp add: sessions_inv_def init_state_def)

lemma sessions_inv_trivia_cmd:
  assumes "sessions_inv st"
  shows "sessions_inv (trivia_cmd seed channel author st)"
proof -
  have "seed mod length TRIVIA_QUESTIONS < length TRIVIA_QUESTIONS"
    by (simp add: TRIVIA_QUESTIONS_def)
  then have "TRIVIA_QUESTIONS ! (seed mod length TRIVIA_QUESTIONS) \<in> set TRIVIA_QUESTIONS"
    by (rule nth_mem)
  with assms show ?thesis by (auto simp: sessions_inv_def trivia_cmd_def)
qed


lemma trivia_step_sessions:
  "active_trivia (fst (trivia_step env m st)) c = Some p \<Longrightarrow> active_trivia st c = Some p"
  by (auto simp: trivia_step_def trivia_check_def trivia_announced_def Let_def
      split: option.splits if_splits)

lemma sessions_inv_on_message:
  assumes "sessions_inv st"
  shows "sessions_inv (fst (on_message cfg env m st))"
proof (cases "m_author_bot m")
  case True
  with assms show ?thesis by (simp add: on_message_def)
next
  case False
  obtain db ev1 where xs: "xp_step env m st = (st\<lparr>users_tbl := db\<rparr>, ev1)"
    using xp_step_shape [of env m st] by blast
  obtain st2 ev2 stop where t: "trivia_step env m (st\<lparr>users_tbl := db\<rparr>) = (st2, ev2, stop)"
    by (cases "trivia_step env m (st\<lparr>users_tbl := db\<rparr>)")
  have keep: "active_trivia st2 c = Some p \<Longrightarrow> active_trivia st c = Some p" for c p
    using trivia_step_sessions [of env m "st\<lparr>users_tbl := db\<rparr>" c p] t by simp
  obtain t1 t2 ev where tail:
    "(case auto_react cfg env m st2 of
        (st3, ev3) \<Rightarrow>
          (case auto_reply cfg env m st3 of
             (st4, ev4) \<Rightarrow> (st4, ev1 @ ev2 @ ev3 @ ev4 @ [CommandsProcessed])))
     = (st2\<lparr>last_react_time := t1, last_reply_time := t2\<rparr>, ev1 @ ev2 @ ev @ [CommandsProcessed])"
    using auto_tail [where cfg = cfg and env = env and m = m and st = st2
        and ?ev1.0 = ev1 and ?ev2.0 = ev2] by auto
  have "active_trivia (fst (on_message cfg env m st)) = active_trivia st2"
    using False xs t tail by (cases stop) (simp_all add: on_message_def)
  with assms keep show ?thesis unfolding sessions_inv_def by metis
qed

lemma add_xp_xp: "xp_of (fst (add_xp pt db uid amount)) u = (if u = uid then xp_of db u + amount else xp_of db u)"
  by (auto simp: add_xp_row xp_of_def Let_def split: option.splits sum.splits)

lemma on_message_xp_bound:
  "xp_of (users_tbl (fst (on_message cfg env m st))) u \<le> xp_of (users_tbl st) u + 3"
proof (cases "m_author_bot m")
  case True
  then show ?thesis by (simp add: on_message_def)
next
  case False
  have r: "1 \<le> randint 1 3 (xp_seed env) \<and> randint 1 3 (xp_seed env) \<le> 3"
    by (rule randint_range) simp
  have x: "users_tbl (fst (xp_step env m st)) =
      fst (add_xp (pow_trunc env) (users_tbl st) (m_author m) (randint 1 3 (xp_seed env)))"
    by (simp add: xp_step_def split: prod.splits sum.splits option.splits)
  obtain db ev1 where xs: "xp_step env m st = (st\<lparr>users_tbl := db\<rparr>, ev1)"
    using xp_step_shape [of env m st] by blast
  obtain sc tr ev2 stop where
    t: "trivia_step env m (st\<lparr>users_tbl := db\<rparr>)
          = (st\<lparr>users_tbl := db, trivia_scores := sc, active_trivia := tr\<rparr>, ev2, stop)"
    using trivia_step_shape [of env m "st\<lparr>users_tbl := db\<rparr>"] by auto
  obtain t1 t2 ev where tail:
    "(case auto_react cfg env m (st\<lparr>users_tbl := db, trivia_scores := sc, active_trivia := tr\<rparr>) of
        (st3, ev3) \<Rightarrow>
          (case auto_reply cfg env m st3 of
             (st4, ev4) \<Rightarrow> (st4, ev1 @ ev2 @ ev3 @ ev4 @ [CommandsProcessed])))
     = (st\<lparr>users_tbl := db, trivia_scores := sc, active_trivia := tr,
           last_react_time := t1, last_reply_time := t2\<rparr>,
        ev1 @ ev2 @ ev @ [CommandsProcessed])"
    using auto_tail [where cfg = cfg and env = env and m = m
        and st = "st\<lparr>users_tbl := db, trivia_scores := sc, active_trivia := tr\<rparr>"
        and ?ev1.0 = ev1 and ?ev2.0 = ev2] by auto
  have "users_tbl (fst (on_message cfg env m st)) = db"
    using False xs t tail by (cases stop) (simp_all add: on_message_def)
  moreover from x xs have "db = fst (add_xp (pow_trunc env) (users_tbl st) (m_author m) (randint 1 3 (xp_seed env)))"
    by simp
  ultimately show ?thesis using r by (simp add: add_xp_xp)
qed

lemma on_messages_xp_bound:
  "xp_of (users_tbl (fst (on_messages cfg ms st))) u \<le> xp_of (users_tbl st) u + 3 * int (length ms)"
proof (induction ms arbitrary: st)
  case Nil
  show ?case by simp
next
  case (Cons em ms)
  obtain env m where em: "em = (env, m)" by (cases em)
  have "xp_of (users_tbl (fst (on_messages cfg (em # ms) st))) u
      = xp_of (users_tbl (fst (on_messages cfg ms (fst (on_message cfg env m st))))) u"
    by (simp add: em case_prod_unfold)
  also have "\<dots> \<le> xp_of (users_tbl (fst (on_message cfg env m st))) u + 3 * int (length ms)"
    by (rule Cons.IH)
  also have "\<dots> \<le> xp_of (users_tbl st) u + 3 + 3 * int (length ms)"
    using on_message_xp_bound [of cfg env m st u] by simp
  finally show ?case by simp
qed

end
